theory Spec2Isabelle
  imports Complex_Main
begin

section \<open>PDFDocument (lib/document.js): the document orchestrator\<close>

text \<open>
  A shallow embedding of the class \<^verbatim>\<open>PDFDocument\<close> of \<^verbatim>\<open>lib/document.js\<close>. The object
  is a record, each method takes the record and returns the updated one, and a thrown
  error is a value. Fields and methods keep their JavaScript names; a leading underscore
  is dropped from a field (\<^verbatim>\<open>_offsets\<close> is \<open>offsets\<close>), and the methods \<^verbatim>\<open>_write\<close>,
  \<^verbatim>\<open>_refEnd\<close>, \<^verbatim>\<open>_finalize\<close> and \<^verbatim>\<open>end\<close> are \<open>doc_write\<close>, \<open>doc_refEnd\<close>,
  \<open>doc_finalize\<close> and \<open>doc_end\<close>.

  The classes \<^verbatim>\<open>PDFReference\<close>, \<^verbatim>\<open>PDFPage\<close>, \<^verbatim>\<open>PDFNameTree\<close>, \<^verbatim>\<open>PDFObject\<close>,
  \<^verbatim>\<open>PDFSecurity\<close> and the mixins are imported by \<^verbatim>\<open>document.js\<close> from files that are
  not part of the sources at hand. What the document needs of them is either a parameter
  (the record \<open>env\<close>) or a definition marked as modelled from the specification.

  Numbers: counters, lengths and byte offsets are integers far below \<open>2^53\<close>, where
  JavaScript arithmetic is exact; they are \<open>nat\<close> or \<open>int\<close>. Page dimensions and
  coordinates are \<open>real\<close>; the only arithmetic on them is one subtraction.
  Event listeners (\<^verbatim>\<open>emit('pageAdded')\<close>) and the drawing state of the vector mixin
  (\<^verbatim>\<open>x\<close>, \<^verbatim>\<open>y\<close>, \<^verbatim>\<open>_ctm\<close>) are not part of the state modelled here.
\<close>

subsection \<open>JavaScript values\<close>

text \<open>Option values are dynamically typed; \<open>Obj\<close> is any object other than a string.\<close>

datatype jsval = Undefined | Null | Bool bool | Num real | NaN | Str string | Obj

fun truthy :: "jsval \<Rightarrow> bool" where
  "truthy Undefined = False"
| "truthy Null = False"
| "truthy (Bool b) = b"
| "truthy (Num x) = (x \<noteq> 0)"
| "truthy NaN = False"
| "truthy (Str s) = (s \<noteq> [])"
| "truthy Obj = True"

text \<open>Decimal rendering of an integer, as a template literal does it.\<close>

fun show_nat :: "nat \<Rightarrow> string" where
  "show_nat n =
     (if n < 10 then [''0123456789'' ! n]
      else show_nat (n div 10) @ [''0123456789'' ! (n mod 10)])"

declare show_nat.simps [simp del]

definition show_int :: "int \<Rightarrow> string" where
  "show_int i = (if i < 0 then ''-'' @ show_nat (nat (- i)) else show_nat (nat i))"

text \<open>\<^verbatim>\<open>s.slice(-k)\<close>: the last \<open>k\<close> characters, the whole string when it is shorter.\<close>

definition slice_last :: "nat \<Rightarrow> string \<Rightarrow> string" where
  "slice_last k s = drop (length s - k) s"

text \<open>
  \<^verbatim>\<open>xs[i] = v\<close> on an array: inside the array the element is replaced; past its end the
  array grows, the skipped positions reading as \<open>hole\<close>; a negative index sets a property
  that is no element.
\<close>

definition array_set :: "'a \<Rightarrow> 'a list \<Rightarrow> int \<Rightarrow> 'a \<Rightarrow> 'a list" where
  "array_set hole xs i v =
     (if i < 0 then xs
      else if nat i < length xs then xs[nat i := v]
      else xs @ replicate (nat i - length xs) hole @ [v])"

text \<open>
  An object with string keys is the list of its entries in insertion order.
  \<^verbatim>\<open>o[k] = v\<close>: an existing key keeps its place, a new one goes last.
\<close>

fun obj_set :: "'k \<Rightarrow> 'v \<Rightarrow> ('k \<times> 'v) list \<Rightarrow> ('k \<times> 'v) list" where
  "obj_set k v [] = [(k, v)]"
| "obj_set k v (p # ps) = (if fst p = k then (k, v) # ps else p # obj_set k v ps)"

text \<open>
  \<^verbatim>\<open>for (let key in o)\<close>: the keys that are array indices (the decimal rendering of an
  integer below \<open>2^32 - 1\<close>) come first, in ascending numeric order, then the other keys
  in insertion order. \<open>digit_of\<close> and \<open>read_nat\<close> read a string of decimal digits.
\<close>

definition digit_of :: "char \<Rightarrow> nat" where
  "digit_of c = of_char c - 48"

definition read_nat :: "string \<Rightarrow> nat" where
  "read_nat s = foldl (\<lambda>a c. 10 * a + digit_of c) 0 s"

definition is_index :: "string \<Rightarrow> bool" where
  "is_index s = (show_nat (read_nat s) = s \<and> read_nat s < 4294967295)"

definition for_in :: "(string \<times> 'v) list \<Rightarrow> (string \<times> 'v) list" where
  "for_in kvs =
     sort_key (\<lambda>kv. read_nat (fst kv)) (filter (\<lambda>kv. is_index (fst kv)) kvs)
     @ filter (\<lambda>kv. \<not> is_index (fst kv)) kvs"

subsection \<open>The data model\<close>

text \<open>
  The argument of \<^verbatim>\<open>_write\<close>: a \<^verbatim>\<open>Buffer\<close>, or a string (every call of the file that
  passes no buffer passes a string). What \<^verbatim>\<open>push\<close> hands to the stream: a buffer of
  bytes, or \<^verbatim>\<open>null\<close>, which closes the stream.
\<close>

datatype data = Text string | Buffer string

datatype chunk = Bytes string | EOS

text \<open>
  A slot of \<^verbatim>\<open>_offsets\<close>: \<^verbatim>\<open>null\<close> (the placeholder \<^verbatim>\<open>ref\<close> pushes), \<^verbatim>\<open>undefined\<close>
  (a hole, or the offset of a reference that was never serialised), or a byte offset.
\<close>

datatype slot = Pending | Missing | Offset nat

text \<open>What the document reads of a \<^verbatim>\<open>PDFReference\<close>: its \<^verbatim>\<open>id\<close> and its \<^verbatim>\<open>offset\<close>.\<close>

record reference =
  rid :: nat
  roffset :: slot

text \<open>
  What the document reads of a \<^verbatim>\<open>PDFPage\<close>. References are held by their ids.
\<close>

record page =
  dictionary :: nat
  content :: nat
  width :: real
  height :: real

text \<open>A coordinate of a destination: \<^verbatim>\<open>null\<close>, absent (\<^verbatim>\<open>undefined\<close>), a number, or NaN.\<close>

datatype coord = CNull | CAbsent | CNum real | CNaN

text \<open>
  The array stored for a named destination: the page's dictionary, the destination type
  and its coordinates.
\<close>

type_synonym destination = "nat \<times> string \<times> coord list"

record options =
  pdfVersion :: jsval
  opt_compress :: jsval
  bufferPages :: jsval
  autoFirstPage :: jsval
  lang :: jsval
  displayTitle :: jsval
  opt_info :: "(string \<times> jsval) list"

record doc =
  options :: options
  version :: real
  compress :: jsval
  pageBuffer :: "page list"
  pageBufferStart :: nat
  offsets :: "slot list"
  waiting :: int
  ended :: bool
  offset :: nat
  Pages :: nat
  Count :: nat
  Kids :: "nat list"
  Names :: nat
  Dests :: "string \<rightharpoonup> destination"
  root :: nat
  Lang :: "jsval option"
  ViewerPreferences :: "nat option"
  page :: "page option"
  info :: "(string \<times> jsval) list"
  info_ref :: "nat option"
  info_data :: "(string \<times> nat) list"
  file_id :: string
  security :: "nat option"
  out :: "chunk list"

text \<open>
  \<open>Pages\<close>, \<open>Names\<close> and \<open>root\<close> are the ids of the three references the constructor
  allocates; \<open>Count\<close> and \<open>Kids\<close> are \<^verbatim>\<open>_root.data.Pages.data.Count\<close> and \<^verbatim>\<open>.Kids\<close>,
  \<open>Dests\<close> is \<^verbatim>\<open>_root.data.Names.data.Dests\<close>, \<open>Lang\<close> and \<open>ViewerPreferences\<close> are
  entries of \<^verbatim>\<open>_root.data\<close>, \<open>info_ref\<close> is \<^verbatim>\<open>_info\<close> and \<open>info_data\<close> its payload,
  \<open>security\<close> is the dictionary reference of \<^verbatim>\<open>_security\<close> (\<open>None\<close> when there is no
  security filter), and \<open>out\<close> is everything pushed to the readable stream so far.
\<close>

record trailer =
  Size :: nat
  Root :: nat
  Info :: "nat option"
  ID :: "string \<times> string"
  Encrypt :: "nat option"

text \<open>
  A call a collaborator makes on the document: \<^verbatim>\<open>document.ref(...)\<close>,
  \<^verbatim>\<open>document._write(data)\<close>, \<^verbatim>\<open>document._refEnd(ref)\<close>, or \<^verbatim>\<open>end()\<close> on the
  reference with the given id.
\<close>

datatype act = CallRef | CallWrite data | CallRefEnd reference | CallEnd nat

text \<open>
  The collaborators whose code is not at hand, as parameters:
  \<^item> \<open>convert\<close>: \<^verbatim>\<open>PDFObject.convert\<close> on the trailer;
  \<^item> \<open>body\<close>: the serialised payload of a reference, as the chunks its \<^verbatim>\<open>end()\<close> writes;
  \<^item> \<open>generateFileID\<close>: \<^verbatim>\<open>PDFSecurity.generateFileID\<close>;
  \<^item> \<open>secured\<close>: whether \<^verbatim>\<open>PDFSecurity.create\<close> returns a security filter;
  \<^item> \<open>dimensions\<close>: width and height \<^verbatim>\<open>PDFPage\<close> derives from the options;
  \<^item> \<open>now\<close>: \<^verbatim>\<open>new Date()\<close>;
  \<^item> \<open>init_mixins\<close>: the calls \<^verbatim>\<open>initMetadata\<close> to \<^verbatim>\<open>initSubset\<close> make on the document;
  \<^item> \<open>end_mixins\<close>: those of the fonts' \<^verbatim>\<open>finalize\<close>, \<^verbatim>\<open>endOutline\<close>, \<^verbatim>\<open>endMarkings\<close>,
    \<^verbatim>\<open>endSubset\<close> and \<^verbatim>\<open>endMetadata\<close>;
  \<^item> \<open>endAcroForm\<close> and \<open>endPageMarkings\<close>: those of the methods of these names.
\<close>

record env =
  convert :: "trailer \<Rightarrow> string"
  body :: "doc \<Rightarrow> nat \<Rightarrow> data list"
  generateFileID :: "(string \<times> jsval) list \<Rightarrow> string"
  secured :: "options \<Rightarrow> bool"
  dimensions :: "options \<Rightarrow> real \<times> real"
  now :: jsval
  init_mixins :: "act list"
  end_mixins :: "act list"
  endAcroForm :: "act list"
  endPageMarkings :: "page \<Rightarrow> act list"

datatype error = Error string | TypeError

subsection \<open>The reference store and the byte sink\<close>

text \<open>
  \<^verbatim>\<open>ref(data)\<close>, lines 243-248. The new reference has the id \<^verbatim>\<open>_offsets.length + 1\<close>
  and no offset yet.
\<close>

definition ref :: "doc \<Rightarrow> reference \<times> doc" where
  "ref d =
     (\<lparr>rid = length (offsets d) + 1, roffset = Missing\<rparr>,
      d\<lparr>offsets := offsets d @ [Pending], waiting := waiting d + 1\<rparr>)"

text \<open>
  \<^verbatim>\<open>_write(data)\<close>, lines 253-260. A string gets a newline and becomes a buffer with one
  byte for each character (the encoding \<^verbatim>\<open>'binary'\<close>); the buffer is pushed and the
  running offset grows by its length. The result is the new offset.
\<close>

definition to_buffer :: "data \<Rightarrow> string" where
  "to_buffer dat = (case dat of Buffer b \<Rightarrow> b | Text s \<Rightarrow> s @ [CHR 0x0A])"

definition doc_write :: "data \<Rightarrow> doc \<Rightarrow> nat \<times> doc" where
  "doc_write dat d =
     (let b = to_buffer dat
      in (offset d + length b,
          d\<lparr>out := out d @ [Bytes b], offset := offset d + length b\<rparr>))"

text \<open>A statement that calls \<^verbatim>\<open>_write\<close> on a string and drops the result.\<close>

definition put :: "string \<Rightarrow> doc \<Rightarrow> doc" where
  "put s d = snd (doc_write (Text s) d)"

text \<open>
  \<^verbatim>\<open>_finalize()\<close>, lines 341-373. \<open>show_slot\<close> is the slot inside the template literal
  of line 349.
\<close>

fun show_slot :: "slot \<Rightarrow> string" where
  "show_slot Pending = ''null''"
| "show_slot Missing = ''undefined''"
| "show_slot (Offset n) = show_nat n"

definition xref_entry :: "slot \<Rightarrow> string" where
  "xref_entry s = slice_last 10 (''0000000000'' @ show_slot s) @ '' 00000 n ''"

definition trailer_of :: "doc \<Rightarrow> trailer" where
  "trailer_of d =
     \<lparr>Size = length (offsets d) + 1, Root = root d, Info = info_ref d,
      ID = (file_id d, file_id d), Encrypt = security d\<rparr>"

definition doc_finalize :: "env \<Rightarrow> doc \<Rightarrow> doc" where
  "doc_finalize E d =
     (let xRefOffset = offset d;
          d1 = put ''xref'' d;
          d2 = put (''0 '' @ show_nat (length (offsets d1) + 1)) d1;
          d3 = put ''0000000000 65535 f '' d2;
          d4 = fold (\<lambda>s. put (xref_entry s)) (offsets d3) d3;
          d5 = put ''trailer'' d4;
          d6 = put (convert E (trailer_of d5)) d5;
          d7 = put ''startxref'' d6;
          d8 = put (show_nat xRefOffset) d7;
          d9 = put ''%%EOF'' d8
      in d9\<lparr>out := out d9 @ [EOS]\<rparr>)"

text \<open>
  \<^verbatim>\<open>_refEnd(ref)\<close>, lines 267-273: the offset is recorded, the counter is decremented,
  and when it is then zero and the document has ended, the file is completed and the
  flag is cleared.
\<close>

definition doc_refEnd :: "env \<Rightarrow> reference \<Rightarrow> doc \<Rightarrow> doc" where
  "doc_refEnd E r d =
     (let d1 = d\<lparr>offsets := array_set Missing (offsets d) (int (rid r) - 1) (roffset r),
                 waiting := waiting d - 1\<rparr>
      in if waiting d1 = 0 \<and> ended d1 then (doc_finalize E d1)\<lparr>ended := False\<rparr> else d1)"

text \<open>
  Modelled from the spec: \<^verbatim>\<open>end()\<close> of \<^verbatim>\<open>PDFReference\<close>, whose file is missing. The
  specification has a reference finalise by writing its serialised payload to the byte
  sink inside the framing \<^verbatim>\<open>N 0 obj ... endobj\<close>, recording as its offset the sink's
  offset captured immediately before its bytes are written, and decrementing the
  outstanding counter.
\<close>

definition reference_end :: "env \<Rightarrow> nat \<Rightarrow> doc \<Rightarrow> doc" where
  "reference_end E i d =
     (let off = offset d;
          d1 = put (show_nat i @ '' 0 obj'') d;
          d2 = fold (\<lambda>c s. snd (doc_write c s)) (body E d i) d1;
          d3 = put ''endobj'' d2
      in doc_refEnd E \<lparr>rid = i, roffset = Offset off\<rparr> d3)"

text \<open>The calls of a collaborator, one after the other.\<close>

fun exec :: "env \<Rightarrow> act \<Rightarrow> doc \<Rightarrow> doc" where
  "exec E CallRef d = snd (ref d)"
| "exec E (CallWrite c) d = snd (doc_write c d)"
| "exec E (CallRefEnd r) d = doc_refEnd E r d"
| "exec E (CallEnd i) d = reference_end E i d"

definition run :: "env \<Rightarrow> act list \<Rightarrow> doc \<Rightarrow> doc" where
  "run E as d = fold (exec E) as d"

subsection \<open>Pages\<close>

text \<open>
  Modelled from the spec: the constructor and \<^verbatim>\<open>end()\<close> of \<^verbatim>\<open>PDFPage\<close>, whose file is
  missing. By the specification a page has a dictionary backed by a reference and a
  content-stream reference, and flushing a page serialises its dictionary and its
  content stream. The page's dimensions come from the options through a table of paper
  sizes that is not at hand (\<open>dimensions\<close>).
\<close>

definition new_page :: "env \<Rightarrow> options \<Rightarrow> doc \<Rightarrow> page \<times> doc" where
  "new_page E opts d =
     (let (c, d1) = ref d;
          (dict, d2) = ref d1;
          (w, h) = dimensions E opts
      in (\<lparr>dictionary = rid dict, content = rid c, width = w, height = h\<rparr>, d2))"

definition page_end :: "env \<Rightarrow> page \<Rightarrow> doc \<Rightarrow> doc" where
  "page_end E p d = reference_end E (content p) (reference_end E (dictionary p) d)"

text \<open>\<^verbatim>\<open>flushPages()\<close>, lines 197-207.\<close>

definition flushPages :: "env \<Rightarrow> doc \<Rightarrow> doc" where
  "flushPages E d =
     (let pages = pageBuffer d;
          d1 = d\<lparr>pageBuffer := [], pageBufferStart := pageBufferStart d + length pages\<rparr>
      in fold (\<lambda>p s. page_end E p (run E (endPageMarkings E p) s)) pages d1)"

text \<open>
  \<^verbatim>\<open>addPage(options)\<close>, lines 137-168; \<open>None\<close> is a call without options. The method
  returns the document.
\<close>

definition addPage :: "env \<Rightarrow> options option \<Rightarrow> doc \<Rightarrow> doc" where
  "addPage E opts d =
     (let opts' = (case opts of None \<Rightarrow> options d | Some given \<Rightarrow> given);
          d1 = (if \<not> truthy (bufferPages (options d)) then flushPages E d else d);
          (p, d2) = new_page E opts' d1;
          d3 = d2\<lparr>page := Some p, pageBuffer := pageBuffer d2 @ [p]\<rparr>
      in d3\<lparr>Kids := Kids d3 @ [dictionary p], Count := Count d3 + 1\<rparr>)"

text \<open>\<^verbatim>\<open>bufferedPageRange()\<close>, lines 180-182: \<^verbatim>\<open>start\<close> and \<^verbatim>\<open>count\<close>.\<close>

definition bufferedPageRange :: "doc \<Rightarrow> nat \<times> nat" where
  "bufferedPageRange d = (pageBufferStart d, length (pageBuffer d))"

text \<open>
  \<^verbatim>\<open>switchToPage(n)\<close>, lines 184-195, for an integer \<open>n\<close>. A page object is truthy,
  so the error is thrown exactly when the array has no element at
  \<^verbatim>\<open>n - _pageBufferStart\<close>. The result is what the call returns or throws, with the
  document after the call.
\<close>

definition switchToPage :: "int \<Rightarrow> doc \<Rightarrow> (error + page) \<times> doc" where
  "switchToPage n d =
     (let i = n - int (pageBufferStart d)
      in if 0 \<le> i \<and> nat i < length (pageBuffer d)
         then (Inr (pageBuffer d ! nat i), d\<lparr>page := Some (pageBuffer d ! nat i)\<rparr>)
         else (Inl (Error (''switchToPage('' @ show_int n
                 @ '') out of bounds, current buffer covers pages ''
                 @ show_nat (pageBufferStart d) @ '' to ''
                 @ show_int (int (pageBufferStart d) + int (length (pageBuffer d)) - 1))), d))"

subsection \<open>Named destinations\<close>

text \<open>
  Modelled from the spec: \<^verbatim>\<open>add\<close> of \<^verbatim>\<open>PDFNameTree\<close>, whose file is missing. The
  specification makes the name tree a mapping from string keys to values with unique
  keys, into which \<^verbatim>\<open>add(key, value)\<close> inserts: a map update.
\<close>

definition tree_add :: "string \<Rightarrow> 'v \<Rightarrow> (string \<rightharpoonup> 'v) \<Rightarrow> (string \<rightharpoonup> 'v)" where
  "tree_add key v t = t(key \<mapsto> v)"

text \<open>
  \<^verbatim>\<open>addNamedDestination(name, ...args)\<close>, lines 209-218. The rest arguments are none
  (\<open>None\<close>), or a destination type followed by its coordinates; \<^verbatim>\<open>args[2]\<close> is the
  coordinate at index 1. \<open>coord_at\<close> reads an element of the array, \<open>minus_coord\<close> is
  \<^verbatim>\<open>this.page.height - args[2]\<close> (in a subtraction \<^verbatim>\<open>null\<close> counts as 0 and
  \<^verbatim>\<open>undefined\<close> gives NaN). Without a current page reading \<^verbatim>\<open>this.page.dictionary\<close>
  throws a TypeError before anything is stored. The result is what the call returns or
  throws, with the document after the call.
\<close>

definition coord_at :: "coord list \<Rightarrow> nat \<Rightarrow> coord" where
  "coord_at cs i = (if i < length cs then cs ! i else CAbsent)"

fun minus_coord :: "real \<Rightarrow> coord \<Rightarrow> coord" where
  "minus_coord h (CNum y) = CNum (h - y)"
| "minus_coord h CNull = CNum h"
| "minus_coord h CAbsent = CNaN"
| "minus_coord h CNaN = CNaN"

definition addNamedDestination ::
    "string \<Rightarrow> (string \<times> coord list) option \<Rightarrow> doc \<Rightarrow> (error + unit) \<times> doc" where
  "addNamedDestination name args d =
     (case page d of
        None \<Rightarrow> (Inl TypeError, d)
      | Some p \<Rightarrow>
          (let (ty, cs) = (case args of None \<Rightarrow> (''XYZ'', [CNull, CNull, CNull]) | Some a \<Rightarrow> a);
               cs' = (if ty = ''XYZ'' \<and> coord_at cs 1 \<noteq> CNull
                      then array_set CAbsent cs 1 (minus_coord (height p) (coord_at cs 1))
                      else cs)
           in (Inr (), d\<lparr>Dests := tree_add name (dictionary p, ty, cs') (Dests d)\<rparr>)))"

subsection \<open>Ending the document\<close>

text \<open>
  Modelled from the spec: \<^verbatim>\<open>create\<close> and \<^verbatim>\<open>end\<close> of \<^verbatim>\<open>PDFSecurity\<close>, whose file is
  missing. By the specification the security filter is optional, is configured at
  construction from the options, and owns the reference of the trailer's Encrypt
  dictionary, which the ending sequence finalises. Whether the options ask for a filter
  is the parameter \<open>secured\<close>.
\<close>

definition security_create :: "env \<Rightarrow> options \<Rightarrow> doc \<Rightarrow> doc" where
  "security_create E opts d =
     (if secured E opts then (let (e, s) = ref d in s\<lparr>security := Some (rid e)\<rparr>) else d)"

definition security_end :: "env \<Rightarrow> nat \<Rightarrow> doc \<Rightarrow> doc" where
  "security_end E s d = reference_end E s d"

text \<open>
  \<^verbatim>\<open>end()\<close>, lines 289-339, in three parts: the Info dictionary (lines 292-305), the
  rest of the ending sequence (lines 307-332), and the decision of lines 334-338.
  \<open>info_entry\<close> is the body of the loop of lines 293-303 for one key and its value;
  line 296 wraps a string in a String object, which changes only how the entry is
  serialised (\<open>body\<close>). What \<^verbatim>\<open>end()\<close> returns is not used and not modelled.
\<close>

definition info_entry :: "env \<Rightarrow> string \<times> jsval \<Rightarrow> doc \<Rightarrow> doc" where
  "info_entry E kv s =
     (let (entry, s1) = ref s;
          s2 = reference_end E (rid entry) s1
      in s2\<lparr>info_data := obj_set (fst kv) (rid entry) (info_data s2)\<rparr>)"

definition end_info :: "env \<Rightarrow> doc \<Rightarrow> doc" where
  "end_info E d =
     (let (r, d1) = ref d;
          d2 = d1\<lparr>info_ref := Some (rid r), info_data := []\<rparr>;
          d3 = fold (info_entry E) (for_in (info d2)) d2
      in reference_end E (rid r) d3)"

definition end_prefix :: "env \<Rightarrow> doc \<Rightarrow> doc" where
  "end_prefix E d =
     (let d1 = flushPages E d;
          d2 = end_info E d1;
          d3 = run E (end_mixins E) d2;
          d4 = reference_end E (root d3) d3;
          d5 = reference_end E (Pages d4) d4;
          d6 = reference_end E (Names d5) d5;
          d7 = run E (endAcroForm E) d6;
          d8 = (case ViewerPreferences d7 of None \<Rightarrow> d7 | Some v \<Rightarrow> reference_end E v d7)
      in (case security d8 of None \<Rightarrow> d8 | Some s \<Rightarrow> security_end E s d8))"

definition end_decision :: "env \<Rightarrow> doc \<Rightarrow> doc" where
  "end_decision E d = (if waiting d = 0 then doc_finalize E d else d\<lparr>ended := True\<rparr>)"

definition doc_end :: "env \<Rightarrow> doc \<Rightarrow> doc" where
  "doc_end E d = end_decision E (end_prefix E d)"

subsection \<open>The constructor\<close>

text \<open>
  Lines 33-50: the \<^verbatim>\<open>switch\<close> compares with \<^verbatim>\<open>===\<close>, so only a primitive string can
  match a case.
\<close>

definition pdf_version :: "jsval \<Rightarrow> real" where
  "pdf_version v =
     (if v = Str ''1.4'' then 1.4
      else if v = Str ''1.5'' then 1.5
      else if v = Str ''1.6'' then 1.6
      else if v = Str ''1.7'' \<or> v = Str ''1.7ext3'' then 1.7
      else 1.3)"

text \<open>The version inside the template literal of line 126; it is one of five numbers.\<close>

definition version_text :: "real \<Rightarrow> string" where
  "version_text v =
     (if v = 1.4 then ''1.4'' else if v = 1.5 then ''1.5'' else if v = 1.6 then ''1.6''
      else if v = 1.7 then ''1.7'' else ''1.3'')"

text \<open>
  The constructor, lines 28-135. \<open>fresh\<close> is the object after line 63: the fields
  assigned by lines 30-63 have their values, every field assigned later its unset value.
  \<open>Lang\<close> holds the value that line 81 wraps in a String object.
\<close>

definition fresh :: "options \<Rightarrow> doc" where
  "fresh opts =
     \<lparr>options = opts, version = pdf_version (pdfVersion opts),
      compress = (if opt_compress opts = Undefined \<or> opt_compress opts = Null
                  then Bool True else opt_compress opts),
      pageBuffer = [], pageBufferStart = 0, offsets = [], waiting = 0,
      ended = False, offset = 0, Pages = 0, Count = 0, Kids = [], Names = 0,
      Dests = Map.empty, root = 0, Lang = None, ViewerPreferences = None,
      page = None, info = [], info_ref = None, info_data = [], file_id = [],
      security = None, out = []\<rparr>"

definition PDFDocument :: "env \<Rightarrow> options \<Rightarrow> doc" where
  "PDFDocument E opts =
     (let d0 = fresh opts;
          (pages, d1) = ref d0;
          d2 = d1\<lparr>Pages := rid pages, Count := 0, Kids := []\<rparr>;
          (names, d3) = ref d2;
          d4 = d3\<lparr>Names := rid names, Dests := Map.empty\<rparr>;
          (rt, d5) = ref d4;
          d6 = d5\<lparr>root := rid rt\<rparr>;
          d7 = (if truthy (lang opts) then d6\<lparr>Lang := Some (lang opts)\<rparr> else d6);
          d8 = d7\<lparr>page := None\<rparr>;
          d9 = run E (init_mixins E) d8;
          d10 = d9\<lparr>info := fold (\<lambda>(key, val). obj_set key val) (for_in (opt_info opts))
                    [(''Producer'', Str ''PDFKit''), (''Creator'', Str ''PDFKit''),
                     (''CreationDate'', now E)]\<rparr>;
          d11 = (if truthy (displayTitle opts)
                 then (let (v, s) = ref d10 in s\<lparr>ViewerPreferences := Some (rid v)\<rparr>)
                 else d10);
          d12 = d11\<lparr>file_id := generateFileID E (info d11)\<rparr>;
          d13 = security_create E opts d12;
          d14 = put (''%PDF-'' @ version_text (version d13)) d13;
          d15 = put [CHR ''%'', CHR 0xFF, CHR 0xFF, CHR 0xFF, CHR 0xFF] d14
      in if autoFirstPage opts \<noteq> Bool False then addPage E None d15 else d15)"

section \<open>Notions used in the statements\<close>

subsection \<open>The reference store and the byte sink\<close>

text \<open>
  \<open>completions\<close> counts how often the stream has been closed, which only
  \<open>doc_finalize\<close> does; \<open>is_end\<close> holds of the calls that complete a reference.
\<close>

definition completions :: "doc \<Rightarrow> nat" where
  "completions d = length (filter (\<lambda>c. c = EOS) (out d))"

fun is_end :: "act \<Rightarrow> bool" where
  "is_end (CallRefEnd r) = True"
| "is_end (CallEnd i) = True"
| "is_end a = False"

text \<open>
  A sequence of \<^verbatim>\<open>_write\<close> calls with the offsets they return, and the number of bytes
  a list of chunks holds.
\<close>

fun writes :: "data list \<Rightarrow> doc \<Rightarrow> nat list \<times> doc" where
  "writes [] d = ([], d)"
| "writes (c # cs) d =
     (let (n, d1) = doc_write c d; (ns, d2) = writes cs d1 in (n # ns, d2))"

fun sink_bytes :: "chunk list \<Rightarrow> nat" where
  "sink_bytes [] = 0"
| "sink_bytes (Bytes b # cs) = length b + sink_bytes cs"
| "sink_bytes (EOS # cs) = sink_bytes cs"

text \<open>
  The ids that the \<^verbatim>\<open>ref\<close> calls of a sequence of calls return, in call order; the
  number of \<^verbatim>\<open>ref\<close> calls in it; and \<open>known\<close>: every reference the sequence completes
  has an id the document has allocated by then.
\<close>

fun allocations :: "env \<Rightarrow> act list \<Rightarrow> doc \<Rightarrow> nat list" where
  "allocations E [] d = []"
| "allocations E (CallRef # as) d = rid (fst (ref d)) # allocations E as (snd (ref d))"
| "allocations E (a # as) d = allocations E as (exec E a d)"

definition refs :: "act list \<Rightarrow> nat" where
  "refs as = length (filter (\<lambda>a. a = CallRef) as)"

fun known :: "env \<Rightarrow> act list \<Rightarrow> doc \<Rightarrow> bool" where
  "known E [] d = True"
| "known E (CallRefEnd r # as) d =
     (rid r \<le> length (offsets d) \<and> known E as (exec E (CallRefEnd r) d))"
| "known E (CallEnd i # as) d =
     (i \<le> length (offsets d) \<and> known E as (exec E (CallEnd i) d))"
| "known E (a # as) d = known E as (exec E a d)"

text \<open>A decimal digit, for the ten-digit field of a cross-reference entry.\<close>

definition is_digit :: "char \<Rightarrow> bool" where
  "is_digit c = (48 \<le> (of_char c :: nat) \<and> (of_char c :: nat) \<le> 57)"

text \<open>The lines \<^verbatim>\<open>_finalize\<close> writes, each without its newline.\<close>

definition xref_lines :: "env \<Rightarrow> doc \<Rightarrow> string list" where
  "xref_lines E d =
     [''xref'', ''0 '' @ show_nat (length (offsets d) + 1), ''0000000000 65535 f '']
     @ map xref_entry (offsets d)
     @ [''trailer'', convert E (trailer_of d), ''startxref'', show_nat (offset d), ''%%EOF'']"

subsection \<open>Pages\<close>

text \<open>
  The invariant of the Pages tree: \<open>Count\<close> is the number of \<open>Kids\<close>, no dictionary
  occurs twice, and every kid is a reference the document has allocated.
\<close>

definition pages_inv :: "doc \<Rightarrow> bool" where
  "pages_inv d =
     (Count d = length (Kids d) \<and> distinct (Kids d)
      \<and> (\<forall>k \<in> set (Kids d). k \<le> length (offsets d)))"

text \<open>The pages that a sequence of \<^verbatim>\<open>addPage\<close> calls creates, in call order.\<close>

fun added :: "env \<Rightarrow> options option list \<Rightarrow> doc \<Rightarrow> page list" where
  "added E [] d = []"
| "added E (opts # os) d = the (page (addPage E opts d)) # added E os (addPage E opts d)"

text \<open>
  What ending a page leaves behind. \<open>obj_header i\<close> is the line \<^verbatim>\<open>i 0 obj\<close> that opens
  the serialised reference \<open>i\<close>, as the chunk \<^verbatim>\<open>_write\<close> pushes; \<open>written d e\<close> are the
  chunks pushed to the sink after the document \<open>d\<close> on the way to the later document
  \<open>e\<close>; a page is \<open>serialised\<close> in a list of chunks when the headers of its dictionary
  and of its content stream are among them.
\<close>

definition obj_header :: "nat \<Rightarrow> chunk" where
  "obj_header i = Bytes (show_nat i @ '' 0 obj'' @ [CHR 0x0A])"

definition written :: "doc \<Rightarrow> doc \<Rightarrow> chunk list" where
  "written d d' = drop (length (out d)) (out d')"

definition serialised :: "page \<Rightarrow> chunk list \<Rightarrow> bool" where
  "serialised p cs = (obj_header (dictionary p) \<in> set cs \<and> obj_header (content p) \<in> set cs)"

text \<open>
  \<open>slot_of d i\<close> is \<^verbatim>\<open>_offsets[i - 1]\<close>, which reads as \<^verbatim>\<open>undefined\<close> outside the array.
  A page is \<open>recorded\<close> when the offsets of both its references are in the table, as
  they are once the page has ended; it is \<open>unrecorded\<close> while both slots still hold the
  \<^verbatim>\<open>null\<close> of their allocation; it is \<open>allocated\<close> when both ids are ids the document
  has handed out.
\<close>

fun is_offset :: "slot \<Rightarrow> bool" where
  "is_offset (Offset n) = True"
| "is_offset Pending = False"
| "is_offset Missing = False"

definition slot_of :: "doc \<Rightarrow> nat \<Rightarrow> slot" where
  "slot_of d i = (if 1 \<le> i \<and> i \<le> length (offsets d) then offsets d ! (i - 1) else Missing)"

definition recorded :: "page \<Rightarrow> doc \<Rightarrow> bool" where
  "recorded p d = (is_offset (slot_of d (dictionary p)) \<and> is_offset (slot_of d (content p)))"

definition unrecorded :: "page \<Rightarrow> doc \<Rightarrow> bool" where
  "unrecorded p d = (slot_of d (dictionary p) = Pending \<and> slot_of d (content p) = Pending)"

definition allocated :: "page \<Rightarrow> doc \<Rightarrow> bool" where
  "allocated p d =
     (1 \<le> dictionary p \<and> dictionary p \<le> length (offsets d)
      \<and> 1 \<le> content p \<and> content p \<le> length (offsets d))"

text \<open>
  \<open>with_offset\<close> holds of every call of a collaborator except a direct call of
  \<^verbatim>\<open>_refEnd\<close> with a reference whose offset is not set. A reference that completes
  through its own \<^verbatim>\<open>end()\<close> sets its offset before it calls \<^verbatim>\<open>_refEnd\<close>.
\<close>

fun with_offset :: "act \<Rightarrow> bool" where
  "with_offset (CallRefEnd r) = is_offset (roffset r)"
| "with_offset a = True"

text \<open>
  The document after the constructor and a sequence of \<^verbatim>\<open>addPage\<close> calls, and all the
  pages it has created by then, in the order of their creation: the first page of the
  constructor, if any, and the pages of the calls.
\<close>

definition document :: "env \<Rightarrow> options \<Rightarrow> options option list \<Rightarrow> doc" where
  "document E opts os = fold (addPage E) os (PDFDocument E opts)"

definition history :: "env \<Rightarrow> options \<Rightarrow> options option list \<Rightarrow> page list" where
  "history E opts os = pageBuffer (PDFDocument E opts) @ added E os (PDFDocument E opts)"

subsection \<open>Auxiliary notions of the proofs\<close>

text \<open>
  \<open>rest\<close> forgets the reference store and the byte sink: two documents with the same
  \<open>rest\<close> differ at most in \<open>offsets\<close>, \<open>waiting\<close>, \<open>ended\<close>, \<open>offset\<close> and \<open>out\<close>;
  \<open>rest_info\<close> forgets the Info reference and its payload as well.
\<close>

definition rest :: "doc \<Rightarrow> doc" where
  "rest d = d\<lparr>offsets := [], waiting := 0, ended := False, offset := 0, out := []\<rparr>"

definition rest_info :: "doc \<Rightarrow> doc" where
  "rest_info d = (rest d)\<lparr>info_ref := None, info_data := []\<rparr>"

text \<open>
  The two steps of \<^verbatim>\<open>addPage\<close>: the document after the flush of lines 143-145, and the
  page that line 148 creates.
\<close>

definition flushed :: "env \<Rightarrow> doc \<Rightarrow> doc" where
  "flushed E d = (if \<not> truthy (bufferPages (options d)) then flushPages E d else d)"

definition created :: "env \<Rightarrow> options option \<Rightarrow> doc \<Rightarrow> page" where
  "created E opts d =
     fst (new_page E (case opts of None \<Rightarrow> options d | Some given \<Rightarrow> given) (flushed E d))"

text \<open>
  Accounting of the counter \<^verbatim>\<open>_waiting\<close>: what a sequence of calls adds to it, what the
  constructor leaves in it before the first page, and what the ending sequence of
  \<^verbatim>\<open>end()\<close> adds to it.
\<close>

definition delta :: "act list \<Rightarrow> int" where
  "delta as = int (refs as) - int (length (filter is_end as))"

definition opened :: "env \<Rightarrow> options \<Rightarrow> int" where
  "opened E opts =
     3 + delta (init_mixins E) + (if truthy (displayTitle opts) then 1 else 0)
     + (if secured E opts then 1 else 0)"

definition closing :: "env \<Rightarrow> doc \<Rightarrow> int" where
  "closing E d =
     (\<Sum>p\<leftarrow>pageBuffer d. delta (endPageMarkings E p) - 2) + delta (end_mixins E) - 3
     + delta (endAcroForm E)
     - (case ViewerPreferences d of None \<Rightarrow> 0 | Some v \<Rightarrow> 1)
     - (case security d of None \<Rightarrow> 0 | Some s \<Rightarrow> 1)"

text \<open>
  The invariant of a document that does not buffer pages, \<open>ps\<close> being the pages created
  so far: the buffer holds the last of them, which is not recorded yet, and every
  earlier page is serialised and, when the page hooks complete references with their
  offsets, recorded.
\<close>

definition one_resident :: "env \<Rightarrow> doc \<Rightarrow> page list \<Rightarrow> bool" where
  "one_resident E d ps =
     (pageBuffer d = (if ps = [] then [] else [last ps])
      \<and> (\<forall>p \<in> set (butlast ps). serialised p (out d))
      \<and> (\<forall>p \<in> set ps. allocated p d)
      \<and> ((\<forall>p. \<forall>a \<in> set (endPageMarkings E p). with_offset a)
           \<longrightarrow> (\<forall>p \<in> set (butlast ps). recorded p d))
      \<and> (ps \<noteq> [] \<longrightarrow> unrecorded (last ps) d))"

subsection \<open>Concrete inputs\<close>

text \<open>
  The options of \<^verbatim>\<open>new PDFDocument()\<close>, and collaborators that write a fixed payload,
  create no security filter and make letter-sized pages.
\<close>

definition opts0 :: options where
  "opts0 = \<lparr>pdfVersion = Undefined, opt_compress = Undefined, bufferPages = Undefined,
            autoFirstPage = Undefined, lang = Undefined, displayTitle = Undefined,
            opt_info = []\<rparr>"

definition env0 :: env where
  "env0 = \<lparr>convert = (\<lambda>t. ''<< /Size '' @ show_nat (Size t) @ '' >>''),
           body = (\<lambda>d i. [Text ''<< >>'']), generateFileID = (\<lambda>i. ''0123456789abcdef''),
           secured = (\<lambda>opts. False), dimensions = (\<lambda>opts. (612, 792)), now = Obj,
           init_mixins = [], end_mixins = [], endAcroForm = [],
           endPageMarkings = (\<lambda>p. [])\<rparr>"

text \<open>A store with one reference, completed at the byte offset \<open>n\<close>.\<close>

definition one_ref :: "nat \<Rightarrow> doc" where
  "one_ref n = doc_refEnd env0 \<lparr>rid = 1, roffset = Offset n\<rparr> (snd (ref (fresh opts0)))"

text \<open>
  Options that buffer pages and create no first page, and the document they give after
  three calls of \<^verbatim>\<open>addPage()\<close>.
\<close>

definition buffered_opts :: options where
  "buffered_opts = opts0\<lparr>bufferPages := Bool True, autoFirstPage := Bool False\<rparr>"

definition three_pages :: doc where
  "three_pages = fold (addPage env0) [None, None, None] (PDFDocument env0 buffered_opts)"

section \<open>Properties of the operations\<close>

subsection \<open>The byte sink and the lines of the cross-reference section\<close>

lemma put_eq: "put s d = d\<lparr>out := out d @ [Bytes (s @ [CHR 0x0A])], offset := offset d + (length s + 1)\<rparr>"
  by (simp add: put_def doc_write_def to_buffer_def Let_def)

lemma fold_put:
  "fold (\<lambda>s. put (f s)) xs d =
     d\<lparr>out := out d @ map (\<lambda>s. Bytes (f s @ [CHR 0x0A])) xs,
       offset := offset d + sum_list (map (\<lambda>s. length (f s) + 1) xs)\<rparr>"
  by (induction xs arbitrary: d) (simp_all add: put_eq add.assoc)

lemma fold_write:
  "fold (\<lambda>c s. snd (doc_write c s)) cs d =
     d\<lparr>out := out d @ map (\<lambda>c. Bytes (to_buffer c)) cs,
       offset := offset d + sum_list (map (\<lambda>c. length (to_buffer c)) cs)\<rparr>"
  by (induction cs arbitrary: d) (simp_all add: doc_write_def Let_def add.assoc)

lemma trailer_of_sink [simp]: "trailer_of (d\<lparr>out := a, offset := b\<rparr>) = trailer_of d"
  by (simp add: trailer_of_def)

lemma out_finalize:
  "out (doc_finalize E d) =
     out d @ [Bytes (''xref'' @ [CHR 0x0A]),
              Bytes (''0 '' @ show_nat (length (offsets d) + 1) @ [CHR 0x0A]),
              Bytes (''0000000000 65535 f '' @ [CHR 0x0A])]
       @ map (\<lambda>s. Bytes (xref_entry s @ [CHR 0x0A])) (offsets d)
       @ [Bytes (''trailer'' @ [CHR 0x0A]),
          Bytes (convert E (trailer_of d) @ [CHR 0x0A]),
          Bytes (''startxref'' @ [CHR 0x0A]),
          Bytes (show_nat (offset d) @ [CHR 0x0A]),
          Bytes (''%%EOF'' @ [CHR 0x0A]), EOS]"
  by (simp add: doc_finalize_def Let_def put_eq fold_put)

subsection \<open>What the operations of the store leave as it is\<close>

lemma rest_store [simp]:
  "rest (d\<lparr>out := a\<rparr>) = rest d" "rest (d\<lparr>offset := b\<rparr>) = rest d"
  "rest (d\<lparr>offsets := c\<rparr>) = rest d" "rest (d\<lparr>waiting := w\<rparr>) = rest d"
  "rest (d\<lparr>ended := e\<rparr>) = rest d"
  by (simp_all add: rest_def)

lemma rest_put [simp]: "rest (put s d) = rest d"
  by (simp add: put_eq)

lemma rest_write [simp]: "rest (snd (doc_write c d)) = rest d"
  by (simp add: doc_write_def Let_def)

lemma rest_ref [simp]: "rest (snd (ref d)) = rest d"
  by (simp add: ref_def)

lemma rest_finalize [simp]: "rest (doc_finalize E d) = rest d"
  by (simp add: doc_finalize_def Let_def fold_put)

lemma store_finalize [simp]:
  "offsets (doc_finalize E d) = offsets d" "waiting (doc_finalize E d) = waiting d"
  "ended (doc_finalize E d) = ended d"
  by (simp_all add: doc_finalize_def Let_def put_eq fold_put)

lemma rest_refEnd [simp]: "rest (doc_refEnd E r d) = rest d"
  by (simp add: doc_refEnd_def Let_def)

lemma rest_reference_end [simp]: "rest (reference_end E i d) = rest d"
  by (simp add: reference_end_def Let_def fold_write)

lemma rest_exec [simp]: "rest (exec E a d) = rest d"
  by (cases a) simp_all

lemma rest_run [simp]: "rest (run E as d) = rest d"
  unfolding run_def by (induction as arbitrary: d) simp_all

lemma rest_page_end [simp]: "rest (page_end E p d) = rest d"
  by (simp add: page_end_def)

lemma rest_eqD:
  assumes "rest a = rest b"
  shows "options a = options b" "version a = version b" "compress a = compress b"
    "pageBuffer a = pageBuffer b" "pageBufferStart a = pageBufferStart b"
    "Pages a = Pages b" "Count a = Count b" "Kids a = Kids b" "Names a = Names b"
    "Dests a = Dests b" "root a = root b" "Lang a = Lang b"
    "ViewerPreferences a = ViewerPreferences b" "page a = page b" "info a = info b"
    "info_ref a = info_ref b" "info_data a = info_data b" "file_id a = file_id b"
    "security a = security b"
proof -
  have sel: "f (rest a) = f (rest b)" for f :: "doc \<Rightarrow> 'x"
    using assms by simp
  show "options a = options b" using sel [of options] by (simp add: rest_def)
  show "version a = version b" using sel [of version] by (simp add: rest_def)
  show "compress a = compress b" using sel [of compress] by (simp add: rest_def)
  show "pageBuffer a = pageBuffer b" using sel [of pageBuffer] by (simp add: rest_def)
  show "pageBufferStart a = pageBufferStart b" using sel [of pageBufferStart] by (simp add: rest_def)
  show "Pages a = Pages b" using sel [of Pages] by (simp add: rest_def)
  show "Count a = Count b" using sel [of Count] by (simp add: rest_def)
  show "Kids a = Kids b" using sel [of Kids] by (simp add: rest_def)
  show "Names a = Names b" using sel [of Names] by (simp add: rest_def)
  show "Dests a = Dests b" using sel [of Dests] by (simp add: rest_def)
  show "root a = root b" using sel [of root] by (simp add: rest_def)
  show "Lang a = Lang b" using sel [of Lang] by (simp add: rest_def)
  show "ViewerPreferences a = ViewerPreferences b" using sel [of ViewerPreferences] by (simp add: rest_def)
  show "page a = page b" using sel [of page] by (simp add: rest_def)
  show "info a = info b" using sel [of info] by (simp add: rest_def)
  show "info_ref a = info_ref b" using sel [of info_ref] by (simp add: rest_def)
  show "info_data a = info_data b" using sel [of info_data] by (simp add: rest_def)
  show "file_id a = file_id b" using sel [of file_id] by (simp add: rest_def)
  show "security a = security b" using sel [of security] by (simp add: rest_def)
qed

subsection \<open>Completions, the counter and the flag\<close>

lemma completions_put [simp]: "completions (put s d) = completions d"
  by (simp add: put_eq completions_def)

lemma completions_write [simp]: "completions (snd (doc_write c d)) = completions d"
  by (simp add: doc_write_def Let_def completions_def)

lemma completions_ref [simp]: "completions (snd (ref d)) = completions d"
  by (simp add: ref_def completions_def)

lemma completions_finalize [simp]: "completions (doc_finalize E d) = completions d + 1"
  by (simp add: out_finalize completions_def filter_map comp_def)

lemma completions_upd [simp]:
  "completions (d\<lparr>ended := e\<rparr>) = completions d"
  "completions (d\<lparr>offsets := c\<rparr>) = completions d"
  "completions (d\<lparr>waiting := w\<rparr>) = completions d"
  by (simp_all add: completions_def)

lemma completions_refEnd:
  "completions (doc_refEnd E r d) = completions d + (if waiting d = 1 \<and> ended d then 1 else 0)"
  by (simp add: doc_refEnd_def Let_def)

lemma waiting_refEnd [simp]: "waiting (doc_refEnd E r d) = waiting d - 1"
  by (simp add: doc_refEnd_def Let_def)

lemma ended_refEnd: "ended (doc_refEnd E r d) = (ended d \<and> waiting d \<noteq> 1)"
  by (auto simp add: doc_refEnd_def Let_def)

lemma reference_end_as_refEnd:
  "\<exists>bs n. reference_end E i d =
      doc_refEnd E \<lparr>rid = i, roffset = Offset (offset d)\<rparr>
        (d\<lparr>out := out d @ map Bytes bs, offset := n\<rparr>)"
proof -
  define s where "s = put ''endobj'' (fold (\<lambda>c s. snd (doc_write c s)) (body E d i)
      (put (show_nat i @ '' 0 obj'') d))"
  have "s = d\<lparr>out := out d @ map Bytes ((show_nat i @ '' 0 obj'' @ [CHR 0x0A])
                 # map to_buffer (body E d i) @ [''endobj'' @ [CHR 0x0A]]),
             offset := offset s\<rparr>"
    by (simp add: s_def fold_write put_eq comp_def)
  then have "doc_refEnd E \<lparr>rid = i, roffset = Offset (offset d)\<rparr> s =
      doc_refEnd E \<lparr>rid = i, roffset = Offset (offset d)\<rparr>
        (d\<lparr>out := out d @ map Bytes ((show_nat i @ '' 0 obj'' @ [CHR 0x0A])
                 # map to_buffer (body E d i) @ [''endobj'' @ [CHR 0x0A]]),
           offset := offset s\<rparr>)"
    by (rule arg_cong)
  moreover have "reference_end E i d = doc_refEnd E \<lparr>rid = i, roffset = Offset (offset d)\<rparr> s"
    by (simp add: reference_end_def Let_def s_def)
  ultimately show ?thesis by metis
qed

lemma completions_sink [simp]:
  "completions (d\<lparr>out := out d @ map Bytes bs, offset := n\<rparr>) = completions d"
  by (simp add: completions_def filter_map comp_def)

lemma completions_reference_end:
  "completions (reference_end E i d) = completions d + (if waiting d = 1 \<and> ended d then 1 else 0)"
  using reference_end_as_refEnd [of E i d] by (auto simp: completions_refEnd)

lemma waiting_reference_end [simp]: "waiting (reference_end E i d) = waiting d - 1"
  using reference_end_as_refEnd [of E i d] by auto

lemma ended_reference_end: "ended (reference_end E i d) = (ended d \<and> waiting d \<noteq> 1)"
  using reference_end_as_refEnd [of E i d] by (auto simp: ended_refEnd)

lemma completions_exec:
  "completions (exec E a d) = completions d + (if is_end a \<and> waiting d = 1 \<and> ended d then 1 else 0)"
  by (cases a) (simp_all add: completions_refEnd completions_reference_end)

subsection \<open>Sequences of writes\<close>

lemma sink_bytes_append [simp]: "sink_bytes (xs @ ys) = sink_bytes xs + sink_bytes ys"
  by (induction xs rule: sink_bytes.induct) simp_all

lemma writes_Cons:
  "fst (writes (c # cs) d) = fst (doc_write c d) # fst (writes cs (snd (doc_write c d)))"
  "snd (writes (c # cs) d) = snd (writes cs (snd (doc_write c d)))"
  by (simp_all add: Let_def case_prod_unfold)

lemma writes_out: "out (snd (writes cs d)) = out d @ map (\<lambda>c. Bytes (to_buffer c)) cs"
  by (induction cs arbitrary: d) (simp_all add: writes_Cons doc_write_def Let_def del: writes.simps(2))

lemma writes_results:
  "fst (writes cs d) = map (\<lambda>k. offset d + sum_list (map (\<lambda>c. length (to_buffer c)) (take (Suc k) cs))) [0..<length cs]"
proof (induction cs arbitrary: d)
  case Nil
  then show ?case by simp
next
  case (Cons c cs)
  have "[0..<length (c # cs)] = 0 # map Suc [0..<length cs]"
    by (simp add: upt_conv_Cons map_Suc_upt del: upt_Suc)
  then show ?case
    using Cons [of "snd (doc_write c d)"]
    by (simp add: writes_Cons doc_write_def Let_def comp_def add.assoc del: upt_Suc writes.simps(2))
qed

subsection \<open>The array of offsets\<close>

lemma length_array_set_ge: "length xs \<le> length (array_set h xs i v)"
  by (simp add: array_set_def)

lemma length_array_set_in: "i < int (length xs) \<Longrightarrow> length (array_set h xs i v) = length xs"
  by (auto simp add: array_set_def)

lemma offsets_refEnd:
  "offsets (doc_refEnd E r d) = array_set Missing (offsets d) (int (rid r) - 1) (roffset r)"
  by (simp add: doc_refEnd_def Let_def)

lemma offsets_reference_end:
  "offsets (reference_end E i d) = array_set Missing (offsets d) (int i - 1) (Offset (offset d))"
  using reference_end_as_refEnd [of E i d] by (auto simp: offsets_refEnd)

lemma length_offsets_exec:
  "length (offsets (exec E a d)) \<ge> length (offsets d)"
  by (cases a) (simp_all add: ref_def doc_write_def Let_def offsets_refEnd offsets_reference_end
      length_array_set_ge)

lemma length_offsets_run: "length (offsets d) \<le> length (offsets (run E as d))"
  unfolding run_def
proof (induction as arbitrary: d)
  case Nil
  then show ?case by simp
next
  case (Cons a as)
  show ?case
    using Cons [of "exec E a d"] length_offsets_exec [of d E a] by simp
qed

lemma known_allocations:
  "known E as d \<Longrightarrow>
     allocations E as d = [length (offsets d) + 1 ..< length (offsets d) + 1 + refs as]
     \<and> length (offsets (run E as d)) = length (offsets d) + refs as"
proof (induction as arbitrary: d)
  case Nil
  then show ?case by (simp add: refs_def run_def)
next
  case (Cons a as)
  show ?case
  proof (cases a)
    case CallRef
    then show ?thesis
      using Cons.prems Cons.IH [of "snd (ref d)"]
      by (simp add: refs_def run_def ref_def upt_conv_Cons del: upt_Suc)
  next
    case (CallWrite c)
    then show ?thesis
      using Cons.prems Cons.IH [of "snd (doc_write c d)"]
      by (simp add: refs_def run_def doc_write_def Let_def)
  next
    case (CallRefEnd r)
    then show ?thesis
      using Cons.prems Cons.IH [of "doc_refEnd E r d"]
      by (simp add: refs_def run_def offsets_refEnd length_array_set_in)
  next
    case (CallEnd i)
    then show ?thesis
      using Cons.prems Cons.IH [of "reference_end E i d"]
      by (simp add: refs_def run_def offsets_reference_end length_array_set_in)
  qed
qed

lemma known_append: "known E (as @ bs) d \<Longrightarrow> known E as d"
proof (induction as arbitrary: d)
  case Nil
  then show ?case by simp
next
  case (Cons a as)
  then show ?case by (cases a) simp_all
qed

lemma known_take: "known E as d \<Longrightarrow> known E (take k as) d"
  using known_append [of E "take k as" "drop k as" d] by simp

subsection \<open>Sequences of calls\<close>

lemma run_Nil [simp]: "run E [] d = d" by (simp add: run_def)

lemma run_Cons [simp]: "run E (a # as) d = run E as (exec E a d)" by (simp add: run_def)

lemmas put_frame [simp] = rest_eqD [OF rest_put]

lemmas write_frame [simp] = rest_eqD [OF rest_write]

lemmas ref_frame [simp] = rest_eqD [OF rest_ref]

lemmas finalize_frame [simp] = rest_eqD [OF rest_finalize]

lemmas refEnd_frame [simp] = rest_eqD [OF rest_refEnd]

lemmas reference_end_frame [simp] = rest_eqD [OF rest_reference_end]

lemmas exec_frame [simp] = rest_eqD [OF rest_exec]

lemmas run_frame [simp] = rest_eqD [OF rest_run]

lemmas page_end_frame [simp] = rest_eqD [OF rest_page_end]

lemma store_ref [simp]:
  "waiting (snd (ref d)) = waiting d + 1" "ended (snd (ref d)) = ended d"
  "rid (fst (ref d)) = length (offsets d) + 1"
  "offsets (snd (ref d)) = offsets d @ [Pending]"
  "out (snd (ref d)) = out d" "offset (snd (ref d)) = offset d"
  by (simp_all add: ref_def)

lemma store_put [simp]:
  "waiting (put s d) = waiting d" "ended (put s d) = ended d" "offsets (put s d) = offsets d"
  "out (put s d) = out d @ [Bytes (s @ [CHR 0x0A])]" "offset (put s d) = offset d + (length s + 1)"
  by (simp_all add: put_eq)

lemma store_write [simp]:
  "waiting (snd (doc_write c d)) = waiting d" "ended (snd (doc_write c d)) = ended d"
  "offsets (snd (doc_write c d)) = offsets d"
  by (simp_all add: doc_write_def Let_def)

lemma ended_exec: "ended (exec E a d) = (ended d \<and> \<not> (is_end a \<and> waiting d = 1))"
  by (cases a) (auto simp: ended_refEnd ended_reference_end)

lemma waiting_exec:
  "waiting (exec E a d) = waiting d + (if a = CallRef then 1 else 0) - (if is_end a then 1 else 0)"
  by (cases a) simp_all

lemma waiting_run: "waiting (run E as d) = waiting d + delta as"
proof (induction as arbitrary: d)
  case Nil
  then show ?case by (simp add: delta_def refs_def)
next
  case (Cons a as)
  show ?case
    using Cons [of "exec E a d"] by (simp add: waiting_exec delta_def refs_def)
qed

lemma quiet_exec:
  "\<not> ended d \<Longrightarrow> \<not> ended (exec E a d) \<and> completions (exec E a d) = completions d"
  by (simp add: ended_exec completions_exec)

lemma quiet_run:
  "\<not> ended d \<Longrightarrow> \<not> ended (run E as d) \<and> completions (run E as d) = completions d"
proof (induction as arbitrary: d)
  case Nil
  then show ?case by simp
next
  case (Cons a as)
  show ?case
    using Cons.IH [of "exec E a d"] quiet_exec [OF Cons.prems, of E a] by simp
qed

lemma quiet_reference_end:
  "\<not> ended d \<Longrightarrow>
     \<not> ended (reference_end E i d) \<and> completions (reference_end E i d) = completions d"
  by (simp add: ended_reference_end completions_reference_end)

lemma quiet_page_end:
  "\<not> ended d \<Longrightarrow> \<not> ended (page_end E p d) \<and> completions (page_end E p d) = completions d"
  by (simp add: page_end_def quiet_reference_end)

lemma waiting_page_end [simp]: "waiting (page_end E p d) = waiting d - 2"
  by (simp add: page_end_def)

lemma length_offsets_reference_end: "length (offsets d) \<le> length (offsets (reference_end E i d))"
  by (simp add: offsets_reference_end length_array_set_ge)

lemma length_offsets_page_end: "length (offsets d) \<le> length (offsets (page_end E p d))"
  unfolding page_end_def
  using length_offsets_reference_end [of d E "dictionary p"]
    length_offsets_reference_end [of "reference_end E (dictionary p) d" E "content p"]
  by linarith

subsection \<open>Flushing and adding pages\<close>

lemma flush_fold:
  "rest (fold (\<lambda>p s. page_end E p (run E (endPageMarkings E p) s)) ps s) = rest s
   \<and> waiting (fold (\<lambda>p s. page_end E p (run E (endPageMarkings E p) s)) ps s)
       = waiting s + (\<Sum>p\<leftarrow>ps. delta (endPageMarkings E p) - 2)
   \<and> length (offsets s)
       \<le> length (offsets (fold (\<lambda>p s. page_end E p (run E (endPageMarkings E p) s)) ps s))
   \<and> (\<not> ended s \<longrightarrow>
        \<not> ended (fold (\<lambda>p s. page_end E p (run E (endPageMarkings E p) s)) ps s)
        \<and> completions (fold (\<lambda>p s. page_end E p (run E (endPageMarkings E p) s)) ps s)
            = completions s)"
proof (induction ps arbitrary: s)
  case Nil
  then show ?case by simp
next
  case (Cons p ps)
  let ?s = "page_end E p (run E (endPageMarkings E p) s)"
  have r: "rest ?s = rest s" by simp
  have w: "waiting ?s = waiting s + delta (endPageMarkings E p) - 2"
    by (simp add: waiting_run)
  have l: "length (offsets s) \<le> length (offsets ?s)"
    using length_offsets_run [of s E "endPageMarkings E p"]
      length_offsets_page_end [of "run E (endPageMarkings E p) s" E p] by linarith
  have q: "\<not> ended ?s \<and> completions ?s = completions s" if "\<not> ended s"
    using quiet_run [OF that, of E "endPageMarkings E p"]
      quiet_page_end [of "run E (endPageMarkings E p) s" E p] by simp
  show ?case
    using Cons [of ?s] r w l q by auto
qed

lemma rest_flushPages:
  "rest (flushPages E d)
     = rest (d\<lparr>pageBuffer := [], pageBufferStart := pageBufferStart d + length (pageBuffer d)\<rparr>)"
  by (simp add: flushPages_def Let_def flush_fold)

lemma flushPages_frame [simp]:
  "options (flushPages E d) = options d" "version (flushPages E d) = version d"
  "compress (flushPages E d) = compress d"
  "pageBuffer (flushPages E d) = []"
  "pageBufferStart (flushPages E d) = pageBufferStart d + length (pageBuffer d)"
  "Pages (flushPages E d) = Pages d" "Count (flushPages E d) = Count d"
  "Kids (flushPages E d) = Kids d" "Names (flushPages E d) = Names d"
  "Dests (flushPages E d) = Dests d" "root (flushPages E d) = root d"
  "Lang (flushPages E d) = Lang d"
  "ViewerPreferences (flushPages E d) = ViewerPreferences d" "page (flushPages E d) = page d"
  "info (flushPages E d) = info d" "info_ref (flushPages E d) = info_ref d"
  "info_data (flushPages E d) = info_data d" "file_id (flushPages E d) = file_id d"
  "security (flushPages E d) = security d"
  using rest_eqD [OF rest_flushPages, of E d] by simp_all

lemma waiting_flushPages:
  "waiting (flushPages E d)
     = waiting d + (\<Sum>p\<leftarrow>pageBuffer d. delta (endPageMarkings E p) - 2)"
  by (simp add: flushPages_def Let_def flush_fold)

lemma length_offsets_flushPages: "length (offsets d) \<le> length (offsets (flushPages E d))"
  using flush_fold [of E "pageBuffer d"
      "d\<lparr>pageBuffer := [], pageBufferStart := pageBufferStart d + length (pageBuffer d)\<rparr>"]
  by (simp add: flushPages_def Let_def)

lemma quiet_flushPages:
  "\<not> ended d \<Longrightarrow>
     \<not> ended (flushPages E d) \<and> completions (flushPages E d) = completions d"
  using flush_fold [of E "pageBuffer d"
      "d\<lparr>pageBuffer := [], pageBufferStart := pageBufferStart d + length (pageBuffer d)\<rparr>"]
  by (simp add: flushPages_def Let_def completions_def)

lemma flushPages_empty: "pageBuffer d = [] \<Longrightarrow> flushPages E d = d"
  by (simp add: flushPages_def)

lemma new_page_eq:
  "new_page E opts d =
     (\<lparr>dictionary = length (offsets d) + 2, content = length (offsets d) + 1,
       width = fst (dimensions E opts), height = snd (dimensions E opts)\<rparr>,
      d\<lparr>offsets := offsets d @ [Pending, Pending], waiting := waiting d + 2\<rparr>)"
  by (simp add: new_page_def ref_def case_prod_unfold Let_def)

lemma addPage_eq:
  "addPage E opts d =
     (flushed E d)\<lparr>offsets := offsets (flushed E d) @ [Pending, Pending],
       waiting := waiting (flushed E d) + 2,
       page := Some (created E opts d),
       pageBuffer := pageBuffer (flushed E d) @ [created E opts d],
       Kids := Kids (flushed E d) @ [dictionary (created E opts d)],
       Count := Count (flushed E d) + 1\<rparr>"
  by (simp add: addPage_def flushed_def created_def new_page_eq Let_def)

lemma dictionary_created:
  "dictionary (created E opts d) = length (offsets (flushed E d)) + 2"
  by (simp add: created_def new_page_eq)

lemma flushed_frame [simp]:
  "options (flushed E d) = options d" "version (flushed E d) = version d"
  "Count (flushed E d) = Count d" "Kids (flushed E d) = Kids d"
  "Dests (flushed E d) = Dests d" "page (flushed E d) = page d"
  by (simp_all add: flushed_def)

lemma addPage_fields:
  "options (addPage E opts d) = options d"
  "version (addPage E opts d) = version d"
  "page (addPage E opts d) = Some (created E opts d)"
  "pageBuffer (addPage E opts d) = pageBuffer (flushed E d) @ [created E opts d]"
  "pageBufferStart (addPage E opts d) = pageBufferStart (flushed E d)"
  "Kids (addPage E opts d) = Kids d @ [dictionary (created E opts d)]"
  "Count (addPage E opts d) = Count d + 1"
  "offsets (addPage E opts d) = offsets (flushed E d) @ [Pending, Pending]"
  "waiting (addPage E opts d) = waiting (flushed E d) + 2"
  "ended (addPage E opts d) = ended (flushed E d)"
  "out (addPage E opts d) = out (flushed E d)"
  "offset (addPage E opts d) = offset (flushed E d)"
  "Dests (addPage E opts d) = Dests d"
  by (simp_all add: addPage_eq)

lemma quiet_flushed:
  "\<not> ended d \<Longrightarrow> \<not> ended (flushed E d) \<and> completions (flushed E d) = completions d"
  by (simp add: flushed_def quiet_flushPages)

lemma length_offsets_flushed: "length (offsets d) \<le> length (offsets (flushed E d))"
  by (simp add: flushed_def length_offsets_flushPages)

subsection \<open>The ending sequence\<close>

lemma rest_info_eqD:
  assumes "rest_info a = rest_info b"
  shows "options a = options b" "version a = version b" "compress a = compress b"
    "pageBuffer a = pageBuffer b" "pageBufferStart a = pageBufferStart b"
    "Pages a = Pages b" "Count a = Count b" "Kids a = Kids b" "Names a = Names b"
    "Dests a = Dests b" "root a = root b" "Lang a = Lang b"
    "ViewerPreferences a = ViewerPreferences b" "page a = page b" "info a = info b"
    "file_id a = file_id b" "security a = security b"
proof -
  have sel: "f (rest_info a) = f (rest_info b)" for f :: "doc \<Rightarrow> 'x"
    using assms by simp
  show "options a = options b" using sel [of options] by (simp add: rest_info_def rest_def)
  show "version a = version b" using sel [of version] by (simp add: rest_info_def rest_def)
  show "compress a = compress b" using sel [of compress] by (simp add: rest_info_def rest_def)
  show "pageBuffer a = pageBuffer b" using sel [of pageBuffer] by (simp add: rest_info_def rest_def)
  show "pageBufferStart a = pageBufferStart b"
    using sel [of pageBufferStart] by (simp add: rest_info_def rest_def)
  show "Pages a = Pages b" using sel [of Pages] by (simp add: rest_info_def rest_def)
  show "Count a = Count b" using sel [of Count] by (simp add: rest_info_def rest_def)
  show "Kids a = Kids b" using sel [of Kids] by (simp add: rest_info_def rest_def)
  show "Names a = Names b" using sel [of Names] by (simp add: rest_info_def rest_def)
  show "Dests a = Dests b" using sel [of Dests] by (simp add: rest_info_def rest_def)
  show "root a = root b" using sel [of root] by (simp add: rest_info_def rest_def)
  show "Lang a = Lang b" using sel [of Lang] by (simp add: rest_info_def rest_def)
  show "ViewerPreferences a = ViewerPreferences b"
    using sel [of ViewerPreferences] by (simp add: rest_info_def rest_def)
  show "page a = page b" using sel [of page] by (simp add: rest_info_def rest_def)
  show "info a = info b" using sel [of info] by (simp add: rest_info_def rest_def)
  show "file_id a = file_id b" using sel [of file_id] by (simp add: rest_info_def rest_def)
  show "security a = security b" using sel [of security] by (simp add: rest_info_def rest_def)
qed

lemma rest_info_upd [simp]:
  "rest_info (d\<lparr>info_ref := x\<rparr>) = rest_info d" "rest_info (d\<lparr>info_data := y\<rparr>) = rest_info d"
  by (simp_all add: rest_info_def rest_def)

lemma rest_info_cong: "rest a = rest b \<Longrightarrow> rest_info a = rest_info b"
  by (simp add: rest_info_def)

lemma info_entry_props:
  "rest_info (info_entry E kv s) = rest_info s"
  "waiting (info_entry E kv s) = waiting s"
  "length (offsets s) \<le> length (offsets (info_entry E kv s))"
  "\<not> ended s \<Longrightarrow> \<not> ended (info_entry E kv s) \<and> completions (info_entry E kv s) = completions s"
proof -
  let ?s2 = "reference_end E (length (offsets s) + 1) (snd (ref s))"
  have e: "info_entry E kv s
      = ?s2\<lparr>info_data := obj_set (fst kv) (length (offsets s) + 1) (info_data ?s2)\<rparr>"
    by (simp add: info_entry_def Let_def case_prod_unfold)
  have "rest_info ?s2 = rest_info s"
    by (rule rest_info_cong) simp
  then show "rest_info (info_entry E kv s) = rest_info s"
    unfolding e by simp
  show "waiting (info_entry E kv s) = waiting s"
    unfolding e by simp
  show "length (offsets s) \<le> length (offsets (info_entry E kv s))"
    unfolding e
    using length_offsets_reference_end [of "snd (ref s)" E "length (offsets s) + 1"] by simp
  show "\<not> ended (info_entry E kv s) \<and> completions (info_entry E kv s) = completions s"
    if "\<not> ended s"
    unfolding e
    using quiet_reference_end [of "snd (ref s)" E "length (offsets s) + 1"] that
    by (simp add: completions_def)
qed

lemma rest_info_fold: "rest_info (fold (info_entry E) kvs s) = rest_info s"
  by (induction kvs arbitrary: s) (simp_all add: info_entry_props(1))

lemma waiting_info_fold: "waiting (fold (info_entry E) kvs s) = waiting s"
  by (induction kvs arbitrary: s) (simp_all add: info_entry_props(2))

lemma length_offsets_info_fold:
  "length (offsets s) \<le> length (offsets (fold (info_entry E) kvs s))"
proof (induction kvs arbitrary: s)
  case Nil
  then show ?case by simp
next
  case (Cons kv kvs)
  have "length (offsets s) \<le> length (offsets (info_entry E kv s))"
    by (rule info_entry_props(3))
  also have "\<dots> \<le> length (offsets (fold (info_entry E) kvs (info_entry E kv s)))"
    by (rule Cons)
  finally show ?case by simp
qed

lemma quiet_info_fold:
  "\<not> ended s \<Longrightarrow> \<not> ended (fold (info_entry E) kvs s)
     \<and> completions (fold (info_entry E) kvs s) = completions s"
proof (induction kvs arbitrary: s)
  case Nil
  then show ?case by simp
next
  case (Cons kv kvs)
  have q: "\<not> ended (info_entry E kv s)" "completions (info_entry E kv s) = completions s"
    using info_entry_props(4) [OF Cons.prems] by blast+
  show ?case
    using Cons.IH [OF q(1)] q(2) by simp
qed

lemma end_info_eq:
  "end_info E d =
     reference_end E (length (offsets d) + 1)
       (fold (info_entry E) (for_in (info d))
          ((snd (ref d))\<lparr>info_ref := Some (length (offsets d) + 1), info_data := []\<rparr>))"
  by (simp add: end_info_def Let_def case_prod_unfold)

lemma rest_info_end_info: "rest_info (end_info E d) = rest_info d"
proof -
  have "rest_info (end_info E d)
      = rest_info (fold (info_entry E) (for_in (info d))
          ((snd (ref d))\<lparr>info_ref := Some (length (offsets d) + 1), info_data := []\<rparr>))"
    unfolding end_info_eq by (rule rest_info_cong) simp
  also have "\<dots> = rest_info (snd (ref d))"
    by (simp add: rest_info_fold)
  also have "\<dots> = rest_info d"
    by (rule rest_info_cong) simp
  finally show ?thesis .
qed

lemmas end_info_frame [simp] = rest_info_eqD [OF rest_info_end_info]

lemma waiting_end_info [simp]: "waiting (end_info E d) = waiting d"
  by (simp add: end_info_eq waiting_info_fold)

lemma length_offsets_end_info: "length (offsets d) \<le> length (offsets (end_info E d))"
proof -
  let ?s = "(snd (ref d))\<lparr>info_ref := Some (length (offsets d) + 1), info_data := []\<rparr>"
  have "length (offsets d) \<le> length (offsets ?s)" by simp
  also have "\<dots> \<le> length (offsets (fold (info_entry E) (for_in (info d)) ?s))"
    by (rule length_offsets_info_fold)
  also have "\<dots> \<le> length (offsets (end_info E d))"
    unfolding end_info_eq by (rule length_offsets_reference_end)
  finally show ?thesis .
qed

lemma quiet_end_info:
  assumes "\<not> ended d"
  shows "\<not> ended (end_info E d) \<and> completions (end_info E d) = completions d"
proof -
  let ?s = "(snd (ref d))\<lparr>info_ref := Some (length (offsets d) + 1), info_data := []\<rparr>"
  have s: "\<not> ended ?s" "completions ?s = completions d"
    using assms by (simp_all add: completions_def)
  have f: "\<not> ended (fold (info_entry E) (for_in (info d)) ?s)"
    "completions (fold (info_entry E) (for_in (info d)) ?s) = completions d"
    using quiet_info_fold [OF s(1), of E "for_in (info d)"] s(2) by simp_all
  show ?thesis
    unfolding end_info_eq using quiet_reference_end [OF f(1)] f(2) by simp
qed

lemma end_prefix_props:
  "waiting (end_prefix E d) = waiting d + closing E d"
  "\<not> ended d \<Longrightarrow> \<not> ended (end_prefix E d) \<and> completions (end_prefix E d) = completions d"
proof -
  define d1 where "d1 = flushPages E d"
  define d2 where "d2 = end_info E d1"
  define d3 where "d3 = run E (end_mixins E) d2"
  define d4 where "d4 = reference_end E (root d3) d3"
  define d5 where "d5 = reference_end E (Pages d4) d4"
  define d6 where "d6 = reference_end E (Names d5) d5"
  define d7 where "d7 = run E (endAcroForm E) d6"
  define d8 where "d8 = (case ViewerPreferences d7 of None \<Rightarrow> d7 | Some v \<Rightarrow> reference_end E v d7)"
  define d9 where "d9 = (case security d8 of None \<Rightarrow> d8 | Some s \<Rightarrow> security_end E s d8)"
  have e: "end_prefix E d = d9"
    unfolding end_prefix_def Let_def d1_def d2_def d3_def d4_def d5_def d6_def d7_def
        d8_def d9_def ..
  have vp: "ViewerPreferences d7 = ViewerPreferences d"
    by (simp add: d7_def d6_def d5_def d4_def d3_def d2_def d1_def)
  have sec: "security d8 = security d"
    by (simp add: d8_def d7_def d6_def d5_def d4_def d3_def d2_def d1_def split: option.split)
  have w1: "waiting d1 = waiting d + (\<Sum>p\<leftarrow>pageBuffer d. delta (endPageMarkings E p) - 2)"
    by (simp add: d1_def waiting_flushPages)
  have w7: "waiting d7 = waiting d1 + delta (end_mixins E) - 3 + delta (endAcroForm E)"
    by (simp add: d7_def d6_def d5_def d4_def d3_def d2_def waiting_run)
  have w8: "waiting d8 = waiting d7 - (case ViewerPreferences d of None \<Rightarrow> 0 | Some v \<Rightarrow> 1)"
    unfolding d8_def vp by (simp split: option.split)
  have w9: "waiting d9 = waiting d8 - (case security d of None \<Rightarrow> 0 | Some s \<Rightarrow> 1)"
    unfolding d9_def sec by (simp add: security_end_def split: option.split)
  show "waiting (end_prefix E d) = waiting d + closing E d"
    unfolding e closing_def using w1 w7 w8 w9 by simp
  show "\<not> ended (end_prefix E d) \<and> completions (end_prefix E d) = completions d"
    if n: "\<not> ended d"
  proof -
    have q1: "\<not> ended d1 \<and> completions d1 = completions d"
      unfolding d1_def by (rule quiet_flushPages [OF n])
    have q2: "\<not> ended d2 \<and> completions d2 = completions d"
      unfolding d2_def using quiet_end_info [of d1 E] q1 by simp
    have q3: "\<not> ended d3 \<and> completions d3 = completions d"
      unfolding d3_def using quiet_run [of d2 E] q2 by simp
    have q4: "\<not> ended d4 \<and> completions d4 = completions d"
      unfolding d4_def using quiet_reference_end [of d3 E] q3 by simp
    have q5: "\<not> ended d5 \<and> completions d5 = completions d"
      unfolding d5_def using quiet_reference_end [of d4 E] q4 by simp
    have q6: "\<not> ended d6 \<and> completions d6 = completions d"
      unfolding d6_def using quiet_reference_end [of d5 E] q5 by simp
    have q7: "\<not> ended d7 \<and> completions d7 = completions d"
      unfolding d7_def using quiet_run [of d6 E] q6 by simp
    have q8: "\<not> ended d8 \<and> completions d8 = completions d"
      unfolding d8_def using quiet_reference_end [of d7 E] q7 by (simp split: option.split)
    have q9: "\<not> ended d9 \<and> completions d9 = completions d"
      unfolding d9_def using quiet_reference_end [of d8 E] q8
      by (simp add: security_end_def split: option.split)
    show ?thesis unfolding e by (rule q9)
  qed
qed

lemma end_decision_props:
  "completions (end_decision E p) = completions p + (if waiting p = 0 then 1 else 0)"
  "waiting (end_decision E p) = waiting p"
  "ended (end_decision E p) = (if waiting p = 0 then ended p else True)"
  by (simp_all add: end_decision_def)

lemma countdown:
  "list_all is_end as \<Longrightarrow> ended d \<Longrightarrow> 0 < waiting d \<Longrightarrow>
     completions (run E as d) = completions d + (if waiting d \<le> int (length as) then 1 else 0)"
proof (induction as arbitrary: d)
  case Nil
  then show ?case by simp
next
  case (Cons a as)
  show ?case
  proof (cases "waiting d = 1")
    case True
    have "\<not> ended (exec E a d)" "completions (exec E a d) = completions d + 1"
      using Cons.prems True by (simp_all add: ended_exec completions_exec)
    then show ?thesis
      using quiet_run [of "exec E a d" E as] True by simp
  next
    case False
    have "a \<noteq> CallRef"
      using Cons.prems(1) by auto
    then have "ended (exec E a d)" "0 < waiting (exec E a d)"
      "completions (exec E a d) = completions d" "waiting (exec E a d) = waiting d - 1"
      using Cons.prems False by (simp_all add: ended_exec completions_exec waiting_exec)
    then show ?thesis
      using Cons.IH [of "exec E a d"] Cons.prems(1) by simp
  qed
qed

subsection \<open>The constructor\<close>

lemma fresh_sel [simp]:
  "options (fresh opts) = opts" "version (fresh opts) = pdf_version (pdfVersion opts)"
  "pageBuffer (fresh opts) = []" "pageBufferStart (fresh opts) = 0" "offsets (fresh opts) = []"
  "waiting (fresh opts) = 0" "ended (fresh opts) = False" "offset (fresh opts) = 0"
  "Count (fresh opts) = 0" "Kids (fresh opts) = []" "page (fresh opts) = None"
  "ViewerPreferences (fresh opts) = None" "security (fresh opts) = None"
  "out (fresh opts) = []" "info (fresh opts) = []" "Dests (fresh opts) = Map.empty"
  by (simp_all add: fresh_def)

lemma completions_other [simp]:
  "completions (d\<lparr>Pages := a1, Count := a2, Kids := a3\<rparr>) = completions d"
  "completions (d\<lparr>Names := a4, Dests := a5\<rparr>) = completions d"
  "completions (d\<lparr>root := a6\<rparr>) = completions d"
  "completions (d\<lparr>Lang := a7\<rparr>) = completions d"
  "completions (d\<lparr>page := a8\<rparr>) = completions d"
  "completions (d\<lparr>info := a9\<rparr>) = completions d"
  "completions (d\<lparr>ViewerPreferences := a10\<rparr>) = completions d"
  "completions (d\<lparr>file_id := a11\<rparr>) = completions d"
  "completions (d\<lparr>security := a12\<rparr>) = completions d"
  by (simp_all add: completions_def)

lemma ctor_base:
  obtains b where
    "PDFDocument E opts = (if autoFirstPage opts \<noteq> Bool False then addPage E None b else b)"
    "options b = opts" "version b = pdf_version (pdfVersion opts)"
    "pageBuffer b = []" "pageBufferStart b = 0" "Kids b = []" "Count b = 0"
    "page b = None" "Pages b = 1" "Names b = 2"
    "root b = 3" "Dests b = Map.empty" "waiting b = opened E opts"
    "(ViewerPreferences b = None) = (\<not> truthy (displayTitle opts))"
    "(security b = None) = (\<not> secured E opts)"
    "\<not> ended b" "completions b = 0"
proof -
  define d2 where "d2 = (snd (ref (fresh opts)))\<lparr>Pages := rid (fst (ref (fresh opts))), Count := 0, Kids := []\<rparr>"
  define d4 where "d4 = (snd (ref d2))\<lparr>Names := rid (fst (ref d2)), Dests := Map.empty\<rparr>"
  define d6 where "d6 = (snd (ref d4))\<lparr>root := rid (fst (ref d4))\<rparr>"
  define d7 where "d7 = (if truthy (lang opts) then d6\<lparr>Lang := Some (lang opts)\<rparr> else d6)"
  define d8 where "d8 = d7\<lparr>page := None\<rparr>"
  define d9 where "d9 = run E (init_mixins E) d8"
  define d10 where "d10 = d9\<lparr>info := fold (\<lambda>(key, val). obj_set key val) (for_in (opt_info opts))
                    [(''Producer'', Str ''PDFKit''), (''Creator'', Str ''PDFKit''),
                     (''CreationDate'', now E)]\<rparr>"
  define d11 where "d11 = (if truthy (displayTitle opts)
                 then (snd (ref d10))\<lparr>ViewerPreferences := Some (rid (fst (ref d10)))\<rparr>
                 else d10)"
  define d12 where "d12 = d11\<lparr>file_id := generateFileID E (info d11)\<rparr>"
  define d13 where "d13 = security_create E opts d12"
  define d14 where "d14 = put (''%PDF-'' @ version_text (version d13)) d13"
  define d15 where "d15 = put [CHR ''%'', CHR 0xFF, CHR 0xFF, CHR 0xFF, CHR 0xFF] d14"
  have e: "PDFDocument E opts = (if autoFirstPage opts \<noteq> Bool False then addPage E None d15 else d15)"
    unfolding PDFDocument_def Let_def case_prod_unfold d2_def d4_def d6_def d7_def d8_def d9_def
      d10_def d11_def d12_def d13_def d14_def d15_def ..
  have p8: "options d8 = opts" "version d8 = pdf_version (pdfVersion opts)"
    "pageBuffer d8 = []" "pageBufferStart d8 = 0" "Kids d8 = []" "Count d8 = 0"
    "page d8 = None" "\<not> ended d8" "completions d8 = 0" "Pages d8 = 1" "Names d8 = 2"
    "root d8 = 3" "Dests d8 = Map.empty" "waiting d8 = 3" "ViewerPreferences d8 = None"
    "security d8 = None"
    by (simp_all add: d8_def d7_def d6_def d4_def d2_def completions_def)
  have q9: "\<not> ended d9 \<and> completions d9 = 0"
    unfolding d9_def using quiet_run [OF p8(8), of E] p8(9) by simp
  have p9: "options d9 = opts" "version d9 = pdf_version (pdfVersion opts)"
    "pageBuffer d9 = []" "pageBufferStart d9 = 0" "Kids d9 = []" "Count d9 = 0"
    "page d9 = None" "Pages d9 = 1" "Names d9 = 2"
    "root d9 = 3" "Dests d9 = Map.empty" "waiting d9 = 3 + delta (init_mixins E)"
    "ViewerPreferences d9 = None" "security d9 = None"
    using p8 by (simp_all add: d9_def waiting_run)
  have p13: "options d13 = opts" "version d13 = pdf_version (pdfVersion opts)"
    "pageBuffer d13 = []" "pageBufferStart d13 = 0" "Kids d13 = []" "Count d13 = 0"
    "page d13 = None" "Pages d13 = 1" "Names d13 = 2"
    "root d13 = 3" "Dests d13 = Map.empty" "waiting d13 = opened E opts"
    "(ViewerPreferences d13 = None) = (\<not> truthy (displayTitle opts))"
    "(security d13 = None) = (\<not> secured E opts)"
    "\<not> ended d13" "completions d13 = 0"
    using p9 q9
    by (simp_all add: d13_def security_create_def case_prod_unfold d12_def d11_def d10_def
        opened_def)
  have p15: "options d15 = opts" "version d15 = pdf_version (pdfVersion opts)"
    "pageBuffer d15 = []" "pageBufferStart d15 = 0" "Kids d15 = []" "Count d15 = 0"
    "page d15 = None" "Pages d15 = 1" "Names d15 = 2"
    "root d15 = 3" "Dests d15 = Map.empty" "waiting d15 = opened E opts"
    "(ViewerPreferences d15 = None) = (\<not> truthy (displayTitle opts))"
    "(security d15 = None) = (\<not> secured E opts)"
    "\<not> ended d15" "completions d15 = 0"
    using p13 by (simp_all add: d15_def d14_def)
  show thesis
    by (rule that [of d15, OF e p15])
qed

lemma flushed_empty: "pageBuffer d = [] \<Longrightarrow> flushed E d = d"
  by (simp add: flushed_def flushPages_empty)

lemma ctor_fields:
  "options (PDFDocument E opts) = opts"
  "version (PDFDocument E opts) = pdf_version (pdfVersion opts)"
  "\<not> ended (PDFDocument E opts)"
  "completions (PDFDocument E opts) = 0"
  "pageBufferStart (PDFDocument E opts) = 0"
  "length (pageBuffer (PDFDocument E opts)) = (if autoFirstPage opts \<noteq> Bool False then 1 else 0)"
  "Kids (PDFDocument E opts) = map dictionary (pageBuffer (PDFDocument E opts))"
  "Count (PDFDocument E opts) = length (Kids (PDFDocument E opts))"
  "waiting (PDFDocument E opts)
     = opened E opts + (if autoFirstPage opts \<noteq> Bool False then 2 else 0)"
  "(ViewerPreferences (PDFDocument E opts) = None) = (\<not> truthy (displayTitle opts))"
  "(security (PDFDocument E opts) = None) = (\<not> secured E opts)"
  "Pages (PDFDocument E opts) = 1" "Names (PDFDocument E opts) = 2"
  "root (PDFDocument E opts) = 3"
proof -
  obtain b where b:
    "PDFDocument E opts = (if autoFirstPage opts \<noteq> Bool False then addPage E None b else b)"
    "options b = opts" "version b = pdf_version (pdfVersion opts)"
    "pageBuffer b = []" "pageBufferStart b = 0" "Kids b = []" "Count b = 0"
    "page b = None" "Pages b = 1" "Names b = 2"
    "root b = 3" "Dests b = Map.empty" "waiting b = opened E opts"
    "(ViewerPreferences b = None) = (\<not> truthy (displayTitle opts))"
    "(security b = None) = (\<not> secured E opts)"
    "\<not> ended b" "completions b = 0"
    by (rule ctor_base)
  have f: "flushed E b = b"
    by (rule flushed_empty [OF b(4)])
  have a: "addPage E None b =
     b\<lparr>offsets := offsets b @ [Pending, Pending], waiting := waiting b + 2,
       page := Some (created E None b), pageBuffer := [created E None b],
       Kids := [dictionary (created E None b)], Count := 1\<rparr>"
    unfolding addPage_eq f by (simp add: b)
  show "options (PDFDocument E opts) = opts"
    "version (PDFDocument E opts) = pdf_version (pdfVersion opts)"
    "\<not> ended (PDFDocument E opts)"
    "completions (PDFDocument E opts) = 0"
    "pageBufferStart (PDFDocument E opts) = 0"
    "length (pageBuffer (PDFDocument E opts)) = (if autoFirstPage opts \<noteq> Bool False then 1 else 0)"
    "Kids (PDFDocument E opts) = map dictionary (pageBuffer (PDFDocument E opts))"
    "Count (PDFDocument E opts) = length (Kids (PDFDocument E opts))"
    "waiting (PDFDocument E opts)
       = opened E opts + (if autoFirstPage opts \<noteq> Bool False then 2 else 0)"
    "(ViewerPreferences (PDFDocument E opts) = None) = (\<not> truthy (displayTitle opts))"
    "(security (PDFDocument E opts) = None) = (\<not> secured E opts)"
    "Pages (PDFDocument E opts) = 1" "Names (PDFDocument E opts) = 2"
    "root (PDFDocument E opts) = 3"
    unfolding b(1) a using b(2-) by (simp_all add: completions_def)
qed

lemma doc_end_props:
  "waiting (doc_end E d) = waiting d + closing E d"
  "\<not> ended d \<Longrightarrow> completions (doc_end E d)
      = completions d + (if waiting (doc_end E d) = 0 then 1 else 0)"
  "\<not> ended d \<Longrightarrow> ended (doc_end E d) = (waiting (doc_end E d) \<noteq> 0)"
  by (simp_all add: doc_end_def end_decision_props end_prefix_props)

subsection \<open>The concrete inputs\<close>

lemma env0_sel [simp]:
  "init_mixins env0 = []" "end_mixins env0 = []" "endAcroForm env0 = []"
  "endPageMarkings env0 p = []" "secured env0 opts = False" "dimensions env0 opts = (612, 792)"
  "now env0 = Obj" "body env0 d i = [Text ''<< >>'']"
  "convert env0 t = ''<< /Size '' @ show_nat (Size t) @ '' >>''"
  by (simp_all add: env0_def)

lemma opts0_sel [simp]:
  "pdfVersion opts0 = Undefined" "opt_compress opts0 = Undefined" "bufferPages opts0 = Undefined"
  "autoFirstPage opts0 = Undefined" "lang opts0 = Undefined" "displayTitle opts0 = Undefined"
  "opt_info opts0 = []"
  by (simp_all add: opts0_def)

lemma delta_Nil [simp]: "delta [] = 0"
  by (simp add: delta_def refs_def)

subsection \<open>Decimal fields\<close>

lemma digit_char:
  "k < 10 \<Longrightarrow> digit_of (''0123456789'' ! k) = k \<and> is_digit (''0123456789'' ! k)"
proof -
  assume "k < 10"
  then have "k \<in> set [0, 1, 2, 3, 4, 5, 6, 7, 8, 9]"
    by (simp add: numeral_eq_Suc less_Suc_eq)
  then show ?thesis
    by (auto simp add: digit_of_def is_digit_def)
qed

lemma read_nat_snoc: "read_nat (s @ [c]) = 10 * read_nat s + digit_of c"
  by (simp add: read_nat_def)

lemma read_show: "read_nat (show_nat n) = n"
proof (induction n rule: show_nat.induct)
  case (1 n)
  show ?case
  proof (cases "n < 10")
    case True
    then show ?thesis
      by (subst show_nat.simps) (simp add: read_nat_def digit_char)
  next
    case False
    have "n mod 10 < 10" by simp
    then have "digit_of (''0123456789'' ! (n mod 10)) = n mod 10"
      using digit_char by blast
    then show ?thesis
      using False 1 by (subst show_nat.simps) (simp add: read_nat_snoc)
  qed
qed

lemma digits_show: "c \<in> set (show_nat n) \<Longrightarrow> is_digit c"
proof (induction n rule: show_nat.induct)
  case (1 n)
  show ?case
  proof (cases "n < 10")
    case True
    then show ?thesis
      using 1(2) digit_char [of n] by (subst (asm) show_nat.simps) simp
  next
    case False
    have "n mod 10 < 10" by simp
    then have "is_digit (''0123456789'' ! (n mod 10))"
      using digit_char by blast
    then show ?thesis
      using False 1 by (subst (asm) (2) show_nat.simps) auto
  qed
qed

lemma length_show: "n < 10 ^ k \<Longrightarrow> 0 < k \<Longrightarrow> length (show_nat n) \<le> k"
proof (induction n arbitrary: k rule: show_nat.induct)
  case (1 n)
  show ?case
  proof (cases "n < 10")
    case True
    then show ?thesis
      using 1(3) by (subst show_nat.simps) simp
  next
    case False
    then obtain j where k: "k = Suc j" "0 < j"
      using 1(2,3) by (cases k; cases "k - 1") auto
    have "n div 10 < 10 ^ j"
      using 1(2) k(1) by (simp add: less_mult_imp_div_less mult.commute)
    then have "length (show_nat (n div 10)) \<le> j"
      using 1(1) [OF False _ k(2)] by simp
    then show ?thesis
      using False k(1) by (subst show_nat.simps) simp
  qed
qed

lemma read_zeros: "read_nat (replicate m (CHR ''0'') @ s) = read_nat s"
proof -
  have z: "foldl (\<lambda>a c. 10 * a + digit_of c) 0 (replicate m (CHR ''0'')) = 0"
    by (induction m) (simp_all add: digit_of_def)
  show ?thesis
    by (simp add: read_nat_def z)
qed

lemma slice_pad:
  "length s \<le> 10 \<Longrightarrow>
     slice_last 10 (''0000000000'' @ s) = replicate (10 - length s) (CHR ''0'') @ s"
proof -
  assume l: "length s \<le> 10"
  have g: "slice_last 10 (z @ s) = drop (length s) z @ s" if "length z = 10" for z :: string
    using that l by (simp add: slice_last_def)
  have r: "''0000000000'' = replicate 10 (CHR ''0'')"
    by (simp add: numeral_eq_Suc)
  have "replicate 10 (CHR ''0'')
      = replicate (length s) (CHR ''0'') @ replicate (10 - length s) (CHR ''0'')"
    using l by (simp add: replicate_add [symmetric])
  then have "drop (length s) (replicate 10 (CHR ''0'')) = replicate (10 - length s) (CHR ''0'')"
    by (metis append_eq_conv_conj length_replicate)
  then show ?thesis
    unfolding r using g [of "replicate 10 (CHR ''0'')"] by simp
qed

lemma length_xref_entry: "length (xref_entry s) = 19"
  by (simp add: xref_entry_def slice_last_def)

lemma xref_entry_offset:
  assumes "n < 10 ^ 10"
  shows "xref_entry (Offset n)
           = replicate (10 - length (show_nat n)) (CHR ''0'') @ show_nat n @ '' 00000 n ''"
    "\<forall>c \<in> set (take 10 (xref_entry (Offset n))). is_digit c"
    "read_nat (take 10 (xref_entry (Offset n))) = n"
proof -
  have l: "length (show_nat n) \<le> 10"
    using length_show [OF assms] by simp
  show e: "xref_entry (Offset n)
           = replicate (10 - length (show_nat n)) (CHR ''0'') @ show_nat n @ '' 00000 n ''"
    unfolding xref_entry_def show_slot.simps slice_pad [OF l] by simp
  have t: "take 10 (xref_entry (Offset n))
      = replicate (10 - length (show_nat n)) (CHR ''0'') @ show_nat n"
    unfolding e using l by simp
  show "\<forall>c \<in> set (take 10 (xref_entry (Offset n))). is_digit c"
    unfolding t using digits_show [of _ n] by (auto simp: is_digit_def)
  show "read_nat (take 10 (xref_entry (Offset n))) = n"
    unfolding t by (simp add: read_zeros read_show)
qed

lemma out_finalize_lines:
  "out (doc_finalize E d) = out d @ map (\<lambda>s. Bytes (s @ [CHR 0x0A])) (xref_lines E d) @ [EOS]"
  by (simp add: out_finalize xref_lines_def)

lemma offsets_one_ref: "offsets (one_ref n) = [Offset n]"
  by (simp add: one_ref_def offsets_refEnd array_set_def)

lemma show_nat_step:
  "10 \<le> n \<Longrightarrow> show_nat n = show_nat (n div 10) @ [''0123456789'' ! (n mod 10)]"
  by (subst show_nat.simps) simp

lemma show_nat_digit: "n < 10 \<Longrightarrow> show_nat n = [''0123456789'' ! n]"
  by (subst show_nat.simps) simp

lemma show_nat_small: "show_nat 15 = ''15''" "show_nat 0 = ''0''"
  "show_nat 10000000000 = ''10000000000''"
  by (simp_all add: show_nat_step show_nat_digit)

lemma xref_entry_values:
  "xref_entry (Offset 15) = ''0000000015 00000 n ''"
  "xref_entry (Offset 0) = ''0000000000 00000 n ''"
  "xref_entry (Offset 10000000000) = ''0000000000 00000 n ''"
  by (simp_all add: xref_entry_def show_nat_small slice_last_def)

subsection \<open>The page buffer\<close>

lemma flushed_cases:
  "\<not> truthy (bufferPages (options d)) \<Longrightarrow> flushed E d = flushPages E d"
  "truthy (bufferPages (options d)) \<Longrightarrow> flushed E d = d"
  by (simp_all add: flushed_def)

lemma created_flush:
  "\<not> truthy (bufferPages (options d)) \<Longrightarrow> created E opts (flushPages E d) = created E opts d"
  by (simp add: created_def flushed_def flushPages_empty split: option.split)

lemma addPage_flush_first:
  "\<not> truthy (bufferPages (options d)) \<Longrightarrow> addPage E opts d = addPage E opts (flushPages E d)"
  by (simp add: addPage_eq created_flush) (simp add: flushed_def flushPages_empty)

lemma addPage_unbuffered:
  assumes "\<not> truthy (bufferPages (options d))"
  shows "pageBuffer (addPage E opts d) = [the (page (addPage E opts d))]"
    "pageBufferStart (addPage E opts d) = pageBufferStart d + length (pageBuffer d)"
  using assms by (simp_all add: addPage_fields flushed_cases)

lemma addPage_buffered:
  assumes "truthy (bufferPages (options d))"
  shows "pageBuffer (addPage E opts d) = pageBuffer d @ [the (page (addPage E opts d))]"
    "pageBufferStart (addPage E opts d) = pageBufferStart d"
    "out (addPage E opts d) = out d" "offset (addPage E opts d) = offset d"
    "offsets (addPage E opts d) = offsets d @ [Pending, Pending]"
    "waiting (addPage E opts d) = waiting d + 2"
    "dictionary (the (page (addPage E opts d))) = length (offsets d) + 2"
  using assms by (simp_all add: addPage_fields flushed_cases dictionary_created)

lemma fold_addPage_options [simp]: "options (fold (addPage E) os d) = options d"
  by (induction os arbitrary: d) (simp_all add: addPage_fields)

lemma fold_addPage_unbuffered:
  assumes "\<not> truthy (bufferPages (options d))" "os \<noteq> []"
  shows "pageBuffer (fold (addPage E) os d) = [the (page (fold (addPage E) os d))]"
  using assms
proof (induction os arbitrary: d rule: rev_induct)
  case Nil
  then show ?case by simp
next
  case (snoc x xs)
  have "\<not> truthy (bufferPages (options (fold (addPage E) xs d)))"
    using snoc.prems(1) by simp
  then show ?case
    by (simp add: addPage_unbuffered)
qed

lemma fold_addPage_le1:
  assumes "\<not> truthy (bufferPages (options d))" "length (pageBuffer d) \<le> 1"
  shows "length (pageBuffer (fold (addPage E) os d)) \<le> 1"
proof (cases "os = []")
  case True
  then show ?thesis using assms(2) by simp
next
  case False
  then show ?thesis
    using fold_addPage_unbuffered [OF assms(1) False, of E] by simp
qed

lemma switchToPage_inside:
  "int (pageBufferStart d) \<le> n \<Longrightarrow> n < int (pageBufferStart d) + int (length (pageBuffer d)) \<Longrightarrow>
     switchToPage n d
       = (Inr (pageBuffer d ! nat (n - int (pageBufferStart d))),
          d\<lparr>page := Some (pageBuffer d ! nat (n - int (pageBufferStart d)))\<rparr>)"
  by (simp add: switchToPage_def Let_def)

lemma switchToPage_outside:
  "n < int (pageBufferStart d) \<or> int (pageBufferStart d) + int (length (pageBuffer d)) \<le> n \<Longrightarrow>
     switchToPage n d
       = (Inl (Error (''switchToPage('' @ show_int n
                 @ '') out of bounds, current buffer covers pages ''
                 @ show_nat (pageBufferStart d) @ '' to ''
                 @ show_int (int (pageBufferStart d) + int (length (pageBuffer d)) - 1))), d)"
  by (auto simp add: switchToPage_def Let_def)

lemma switchToPage_fields [simp]:
  "pageBuffer (snd (switchToPage n d)) = pageBuffer d"
  "pageBufferStart (snd (switchToPage n d)) = pageBufferStart d"
  "out (snd (switchToPage n d)) = out d" "offset (snd (switchToPage n d)) = offset d"
  "offsets (snd (switchToPage n d)) = offsets d" "waiting (snd (switchToPage n d)) = waiting d"
  "ended (snd (switchToPage n d)) = ended d" "Kids (snd (switchToPage n d)) = Kids d"
  "Count (snd (switchToPage n d)) = Count d" "options (snd (switchToPage n d)) = options d"
  "Dests (snd (switchToPage n d)) = Dests d"
  by (simp_all add: switchToPage_def Let_def)

subsection \<open>The Pages tree\<close>

lemma pages_inv_addPage:
  assumes "pages_inv d"
  shows "pages_inv (addPage E opts d)"
proof -
  have l: "length (offsets d) \<le> length (offsets (flushed E d))"
    by (rule length_offsets_flushed)
  have k: "\<forall>k \<in> set (Kids d). k \<le> length (offsets d)"
    using assms by (simp add: pages_inv_def)
  have "dictionary (created E opts d) \<notin> set (Kids d)"
    using k l by (auto simp add: dictionary_created)
  then show ?thesis
    using assms k l by (auto simp add: pages_inv_def addPage_fields dictionary_created)
qed

lemma pages_inv_mono:
  "pages_inv d \<Longrightarrow> Kids e = Kids d \<Longrightarrow> Count e = Count d
     \<Longrightarrow> length (offsets d) \<le> length (offsets e) \<Longrightarrow> pages_inv e"
  by (auto simp add: pages_inv_def)

lemma pages_inv_ctor: "pages_inv (PDFDocument E opts)"
proof -
  obtain b where b:
    "PDFDocument E opts = (if autoFirstPage opts \<noteq> Bool False then addPage E None b else b)"
    "options b = opts" "version b = pdf_version (pdfVersion opts)"
    "pageBuffer b = []" "pageBufferStart b = 0" "Kids b = []" "Count b = 0"
    "page b = None" "Pages b = 1" "Names b = 2"
    "root b = 3" "Dests b = Map.empty" "waiting b = opened E opts"
    "(ViewerPreferences b = None) = (\<not> truthy (displayTitle opts))"
    "(security b = None) = (\<not> secured E opts)"
    "\<not> ended b" "completions b = 0"
    by (rule ctor_base)
  have "pages_inv b"
    using b(6,7) by (simp add: pages_inv_def)
  then show ?thesis
    unfolding b(1) using pages_inv_addPage [of b E None] by simp
qed

lemma fold_addPage_kids:
  "pages_inv d \<Longrightarrow>
     pages_inv (fold (addPage E) os d)
     \<and> Kids (fold (addPage E) os d) = Kids d @ map dictionary (added E os d)"
proof (induction os arbitrary: d)
  case Nil
  then show ?case by simp
next
  case (Cons x xs)
  show ?case
    using Cons.IH [OF pages_inv_addPage [OF Cons.prems, of E x]]
    by (simp add: addPage_fields)
qed

lemma end_prefix_pages:
  "Kids (end_prefix E d) = Kids d" "Count (end_prefix E d) = Count d"
  "pageBuffer (end_prefix E d) = []"
  "length (offsets d) \<le> length (offsets (end_prefix E d))"
proof -
  define d1 where "d1 = flushPages E d"
  define d2 where "d2 = end_info E d1"
  define d3 where "d3 = run E (end_mixins E) d2"
  define d4 where "d4 = reference_end E (root d3) d3"
  define d5 where "d5 = reference_end E (Pages d4) d4"
  define d6 where "d6 = reference_end E (Names d5) d5"
  define d7 where "d7 = run E (endAcroForm E) d6"
  define d8 where "d8 = (case ViewerPreferences d7 of None \<Rightarrow> d7 | Some v \<Rightarrow> reference_end E v d7)"
  define d9 where "d9 = (case security d8 of None \<Rightarrow> d8 | Some s \<Rightarrow> security_end E s d8)"
  have e: "end_prefix E d = d9"
    unfolding end_prefix_def Let_def d1_def d2_def d3_def d4_def d5_def d6_def d7_def
        d8_def d9_def ..
  have f7: "Kids d7 = Kids d" "Count d7 = Count d" "pageBuffer d7 = []"
    by (simp_all add: d7_def d6_def d5_def d4_def d3_def d2_def d1_def)
  have f8: "Kids d8 = Kids d" "Count d8 = Count d" "pageBuffer d8 = []"
    using f7 by (simp_all add: d8_def split: option.split)
  show "Kids (end_prefix E d) = Kids d" "Count (end_prefix E d) = Count d"
    "pageBuffer (end_prefix E d) = []"
    unfolding e using f8 by (simp_all add: d9_def security_end_def split: option.split)
  have "length (offsets d) \<le> length (offsets d1)"
    unfolding d1_def by (rule length_offsets_flushPages)
  also have "\<dots> \<le> length (offsets d2)"
    unfolding d2_def by (rule length_offsets_end_info)
  also have "\<dots> \<le> length (offsets d3)"
    unfolding d3_def by (rule length_offsets_run)
  also have "\<dots> \<le> length (offsets d4)"
    unfolding d4_def by (rule length_offsets_reference_end)
  also have "\<dots> \<le> length (offsets d5)"
    unfolding d5_def by (rule length_offsets_reference_end)
  also have "\<dots> \<le> length (offsets d6)"
    unfolding d6_def by (rule length_offsets_reference_end)
  also have "\<dots> \<le> length (offsets d7)"
    unfolding d7_def by (rule length_offsets_run)
  also have "\<dots> \<le> length (offsets d8)"
    unfolding d8_def using length_offsets_reference_end [where d = d7 and E = E] by (simp split: option.split)
  also have "\<dots> \<le> length (offsets d9)"
    unfolding d9_def using length_offsets_reference_end [where d = d8 and E = E]
    by (simp add: security_end_def split: option.split)
  finally show "length (offsets d) \<le> length (offsets (end_prefix E d))"
    unfolding e .
qed

lemma doc_end_pages:
  "Kids (doc_end E d) = Kids d" "Count (doc_end E d) = Count d"
  "pageBuffer (doc_end E d) = []"
  "length (offsets d) \<le> length (offsets (doc_end E d))"
  using end_prefix_pages [where E = E and d = d] by (simp_all add: doc_end_def end_decision_def)

lemma addNamedDestination_pages:
  "Kids (snd (addNamedDestination name args d)) = Kids d"
  "Count (snd (addNamedDestination name args d)) = Count d"
  "offsets (snd (addNamedDestination name args d)) = offsets d"
  by (simp_all add: addNamedDestination_def Let_def case_prod_unfold split: option.split)

lemma length_added [simp]: "length (added E os d) = length os"
  by (induction os arbitrary: d) simp_all

lemma fold_addPage_buffered:
  "truthy (bufferPages (options d)) \<Longrightarrow>
     pageBuffer (fold (addPage E) os d) = pageBuffer d @ added E os d
     \<and> pageBufferStart (fold (addPage E) os d) = pageBufferStart d
     \<and> out (fold (addPage E) os d) = out d
     \<and> offset (fold (addPage E) os d) = offset d
     \<and> waiting (fold (addPage E) os d) = waiting d + 2 * int (length os)"
proof (induction os arbitrary: d)
  case Nil
  then show ?case by simp
next
  case (Cons x xs)
  have t: "truthy (bufferPages (options (addPage E x d)))"
    using Cons.prems by (simp add: addPage_fields)
  show ?case
    using Cons.IH [OF t] addPage_buffered [OF Cons.prems, of E x] by simp
qed

lemma ctor_dictionaries:
  "truthy (bufferPages opts) \<Longrightarrow>
     distinct (map dictionary (pageBuffer (fold (addPage E) os (PDFDocument E opts))))"
proof -
  assume t: "truthy (bufferPages opts)"
  let ?D = "PDFDocument E opts"
  have o: "truthy (bufferPages (options ?D))"
    using t by (simp add: ctor_fields)
  have "Kids (fold (addPage E) os ?D) = Kids ?D @ map dictionary (added E os ?D)"
    "pages_inv (fold (addPage E) os ?D)"
    using fold_addPage_kids [OF pages_inv_ctor, where E = E and os = os] by simp_all
  then have "distinct (map dictionary (pageBuffer ?D) @ map dictionary (added E os ?D))"
    by (simp add: pages_inv_def ctor_fields(7))
  then show ?thesis
    using fold_addPage_buffered [OF o, of E os] by simp
qed

lemma nth_dictionary_neq:
  "distinct (map dictionary ps) \<Longrightarrow> i < length ps \<Longrightarrow> j < length ps \<Longrightarrow> i \<noteq> j
     \<Longrightarrow> ps ! i \<noteq> ps ! j"
  by (metis distinct_conv_nth length_map nth_map)

lemma ctor_empty_buffer:
  "autoFirstPage opts = Bool False \<Longrightarrow> pageBuffer (PDFDocument E opts) = []"
  using ctor_fields(6) [of E opts] by simp

lemma ctor_first_page:
  "autoFirstPage opts \<noteq> Bool False \<Longrightarrow>
     pageBuffer (PDFDocument E opts) = [hd (pageBuffer (PDFDocument E opts))]"
  using ctor_fields(6) [of E opts] by (cases "pageBuffer (PDFDocument E opts)") simp_all

lemma show_int_small: "show_int 0 = ''0''" "show_int 3 = ''3''"
  by (simp_all add: show_int_def show_nat_digit)

lemma buffered_opts_sel [simp]:
  "truthy (bufferPages buffered_opts)" "autoFirstPage buffered_opts = Bool False"
  by (simp_all add: buffered_opts_def opts0_def)

lemma three_pages_buffer:
  "pageBuffer three_pages = added env0 [None, None, None] (PDFDocument env0 buffered_opts)"
  "pageBufferStart three_pages = 0"
  "distinct (map dictionary (pageBuffer three_pages))"
proof -
  let ?D = "PDFDocument env0 buffered_opts"
  have o: "truthy (bufferPages (options ?D))"
    by (simp add: ctor_fields)
  have e: "pageBuffer ?D = []"
    by (rule ctor_empty_buffer) simp
  show "pageBuffer three_pages = added env0 [None, None, None] ?D"
    "pageBufferStart three_pages = 0"
    unfolding three_pages_def
    using fold_addPage_buffered [OF o, of env0 "[None, None, None]"] e
    by (simp_all add: ctor_fields del: fold_simps added.simps)
  show "distinct (map dictionary (pageBuffer three_pages))"
    unfolding three_pages_def by (rule ctor_dictionaries) simp
qed

subsection \<open>Named destinations\<close>

lemma ctor_page:
  "autoFirstPage opts \<noteq> Bool False \<Longrightarrow>
     \<exists>p. page (PDFDocument E opts) = Some p \<and> height p = snd (dimensions E opts)
       \<and> width p = fst (dimensions E opts)"
proof -
  assume a: "autoFirstPage opts \<noteq> Bool False"
  obtain b where b:
    "PDFDocument E opts = (if autoFirstPage opts \<noteq> Bool False then addPage E None b else b)"
    "options b = opts" "version b = pdf_version (pdfVersion opts)"
    "pageBuffer b = []" "pageBufferStart b = 0" "Kids b = []" "Count b = 0"
    "page b = None" "Pages b = 1" "Names b = 2"
    "root b = 3" "Dests b = Map.empty" "waiting b = opened E opts"
    "(ViewerPreferences b = None) = (\<not> truthy (displayTitle opts))"
    "(security b = None) = (\<not> secured E opts)"
    "\<not> ended b" "completions b = 0"
    by (rule ctor_base)
  have "page (PDFDocument E opts) = Some (created E None b)"
    unfolding b(1) using a by (simp add: addPage_fields)
  moreover have "height (created E None b) = snd (dimensions E opts)"
    "width (created E None b) = fst (dimensions E opts)"
    by (simp_all add: created_def new_page_eq b(2))
  ultimately show ?thesis by blast
qed

lemma dest_xyz_num:
  "page d = Some p \<Longrightarrow>
     addNamedDestination name (Some (''XYZ'', x # CNum y # zs)) d
       = (Inr (), d\<lparr>Dests := (Dests d)(name \<mapsto>
            (dictionary p, ''XYZ'', x # CNum (height p - y) # zs))\<rparr>)"
  by (simp add: addNamedDestination_def tree_add_def coord_at_def array_set_def)

lemma dest_xyz_null:
  "page d = Some p \<Longrightarrow>
     addNamedDestination name (Some (''XYZ'', x # CNull # zs)) d
       = (Inr (), d\<lparr>Dests := (Dests d)(name \<mapsto> (dictionary p, ''XYZ'', x # CNull # zs))\<rparr>)"
  by (simp add: addNamedDestination_def tree_add_def coord_at_def)

lemma dest_none:
  "page d = Some p \<Longrightarrow>
     addNamedDestination name None d
       = (Inr (), d\<lparr>Dests := (Dests d)(name \<mapsto>
            (dictionary p, ''XYZ'', [CNull, CNull, CNull]))\<rparr>)"
  by (simp add: addNamedDestination_def tree_add_def coord_at_def)

lemma dest_other:
  "page d = Some p \<Longrightarrow> ty \<noteq> ''XYZ'' \<Longrightarrow>
     addNamedDestination name (Some (ty, cs)) d
       = (Inr (), d\<lparr>Dests := (Dests d)(name \<mapsto> (dictionary p, ty, cs))\<rparr>)"
  by (simp add: addNamedDestination_def tree_add_def)

lemma dest_no_page: "page d = None \<Longrightarrow> addNamedDestination name args d = (Inl TypeError, d)"
  by (simp add: addNamedDestination_def)

lemma dest_result:
  "page d = Some p \<Longrightarrow> fst (addNamedDestination name args d) = Inr ()"
  by (simp add: addNamedDestination_def Let_def case_prod_unfold)

subsection \<open>What flushing writes\<close>

lemma grows_refEnd: "\<exists>cs. out (doc_refEnd E r d) = out d @ cs"
  by (simp add: doc_refEnd_def Let_def out_finalize)

lemma grows_reference_end: "\<exists>cs. out (reference_end E i d) = out d @ obj_header i # cs"
proof -
  define s where "s = put ''endobj'' (fold (\<lambda>c s. snd (doc_write c s)) (body E d i)
      (put (show_nat i @ '' 0 obj'') d))"
  have o: "out s = out d @ obj_header i # map (\<lambda>c. Bytes (to_buffer c)) (body E d i)
      @ [Bytes (''endobj'' @ [CHR 0x0A])]"
    by (simp add: s_def fold_write put_eq obj_header_def)
  have r: "reference_end E i d = doc_refEnd E \<lparr>rid = i, roffset = Offset (offset d)\<rparr> s"
    by (simp add: reference_end_def Let_def s_def)
  obtain cs where "out (reference_end E i d) = out s @ cs"
    unfolding r using grows_refEnd by blast
  then show ?thesis
    by (simp add: o)
qed

lemma grows_exec: "\<exists>cs. out (exec E a d) = out d @ cs"
proof (cases a)
  case CallRef
  then show ?thesis by simp
next
  case (CallWrite c)
  then show ?thesis by (simp add: doc_write_def Let_def)
next
  case (CallRefEnd r)
  then show ?thesis by (simp add: grows_refEnd)
next
  case (CallEnd i)
  then show ?thesis using grows_reference_end [of E i d] by auto
qed

lemma grows_run: "\<exists>cs. out (run E as d) = out d @ cs"
proof (induction as arbitrary: d)
  case Nil
  then show ?case by simp
next
  case (Cons a as)
  obtain xs where x: "out (exec E a d) = out d @ xs"
    using grows_exec by blast
  obtain ys where y: "out (run E as (exec E a d)) = out (exec E a d) @ ys"
    using Cons by blast
  show ?case
    by (simp add: x y)
qed

lemma grows_page_end: "\<exists>cs. out (page_end E p d) = out d @ cs \<and> serialised p cs"
proof -
  obtain xs where x:
    "out (reference_end E (dictionary p) d) = out d @ obj_header (dictionary p) # xs"
    using grows_reference_end by blast
  obtain ys where y:
    "out (reference_end E (content p) (reference_end E (dictionary p) d))
       = out (reference_end E (dictionary p) d) @ obj_header (content p) # ys"
    using grows_reference_end by blast
  have "out (page_end E p d)
      = out d @ (obj_header (dictionary p) # xs @ obj_header (content p) # ys)"
    by (simp add: page_end_def x y)
  moreover have "serialised p (obj_header (dictionary p) # xs @ obj_header (content p) # ys)"
    by (simp add: serialised_def)
  ultimately show ?thesis by blast
qed

lemma serialised_mono: "serialised p cs \<Longrightarrow> serialised p (xs @ cs @ ys)"
  by (simp add: serialised_def)

lemma grows_flush_fold:
  "\<exists>cs. out (fold (\<lambda>p s. page_end E p (run E (endPageMarkings E p) s)) ps s) = out s @ cs
     \<and> (\<forall>p \<in> set ps. serialised p cs)"
proof (induction ps arbitrary: s)
  case Nil
  then show ?case by simp
next
  case (Cons p ps)
  let ?r = "run E (endPageMarkings E p) s"
  let ?s = "page_end E p ?r"
  obtain xs where x: "out ?r = out s @ xs"
    using grows_run by blast
  obtain ys where y: "out ?s = out ?r @ ys" "serialised p ys"
    using grows_page_end by blast
  obtain zs where z:
    "out (fold (\<lambda>p s. page_end E p (run E (endPageMarkings E p) s)) ps ?s) = out ?s @ zs"
    "\<forall>p \<in> set ps. serialised p zs"
    using Cons [of ?s] by blast
  have "out (fold (\<lambda>p s. page_end E p (run E (endPageMarkings E p) s)) (p # ps) s)
      = out s @ (xs @ ys @ zs)"
    by (simp add: x y z)
  moreover have "serialised p (xs @ ys @ zs)"
    by (rule serialised_mono [OF y(2)])
  moreover have "\<forall>q \<in> set ps. serialised q (xs @ ys @ zs)"
    using z(2) serialised_mono [of _ zs "xs @ ys" "[]"] by simp
  ultimately show ?case
    by (metis set_ConsD)
qed

lemma grows_flushPages:
  "\<exists>cs. out (flushPages E d) = out d @ cs \<and> (\<forall>p \<in> set (pageBuffer d). serialised p cs)"
  using grows_flush_fold [of E "pageBuffer d"
      "d\<lparr>pageBuffer := [], pageBufferStart := pageBufferStart d + length (pageBuffer d)\<rparr>"]
  by (simp add: flushPages_def Let_def)

lemma written_append [simp]: "out d' = out d @ cs \<Longrightarrow> written d d' = cs"
  by (simp add: written_def)

lemma written_flushPages:
  "p \<in> set (pageBuffer d) \<Longrightarrow> serialised p (written d (flushPages E d))"
  using grows_flushPages [of E d] by auto

lemma grows_addPage: "\<exists>cs. out (addPage E opts d) = out d @ cs"
  using grows_flushPages [of E d] by (auto simp add: addPage_fields flushed_def)

lemma written_addPage:
  "\<not> truthy (bufferPages (options d)) \<Longrightarrow> p \<in> set (pageBuffer d)
     \<Longrightarrow> serialised p (written d (addPage E opts d))"
  using written_flushPages [of p d E] by (simp add: written_def addPage_fields flushed_cases)

lemma waiting_addPage_unbuffered:
  "\<not> truthy (bufferPages (options d)) \<Longrightarrow>
     waiting (addPage E opts d)
       = waiting d + (\<Sum>p\<leftarrow>pageBuffer d. delta (endPageMarkings E p) - 2) + 2"
  by (simp add: addPage_fields flushed_cases waiting_flushPages)

subsection \<open>Recorded offsets\<close>

lemma is_offset_slot: "is_offset (slot_of d j) \<Longrightarrow> 1 \<le> j \<and> j \<le> length (offsets d)"
  by (simp add: slot_of_def split: if_splits)

lemma slot_array_set:
  assumes "1 \<le> j" "j \<le> length xs"
  shows "j \<le> length (array_set h xs i v)"
    "array_set h xs i v ! (j - 1) = (if i = int j - 1 then v else xs ! (j - 1))"
  using assms by (auto simp add: array_set_def nth_append nth_list_update)

lemma slot_refEnd:
  "1 \<le> j \<Longrightarrow> j \<le> length (offsets d) \<Longrightarrow>
     slot_of (doc_refEnd E r d) j = (if rid r = j then roffset r else slot_of d j)"
  using slot_array_set [of j "offsets d" Missing "int (rid r) - 1" "roffset r"]
  by (auto simp add: slot_of_def offsets_refEnd)

lemma slot_reference_end:
  "1 \<le> j \<Longrightarrow> j \<le> length (offsets d) \<Longrightarrow>
     slot_of (reference_end E i d) j = (if i = j then Offset (offset d) else slot_of d j)"
  using slot_array_set [of j "offsets d" Missing "int i - 1" "Offset (offset d)"]
  by (auto simp add: slot_of_def offsets_reference_end)

lemma keeps_reference_end:
  "is_offset (slot_of d j) \<Longrightarrow> is_offset (slot_of (reference_end E i d) j)"
  using is_offset_slot [of d j] by (simp add: slot_reference_end)

lemma slot_ref: "j \<le> length (offsets d) \<Longrightarrow> slot_of (snd (ref d)) j = slot_of d j"
  by (cases j) (simp_all add: slot_of_def nth_append)

lemma slot_write [simp]: "slot_of (snd (doc_write c d)) j = slot_of d j"
  by (simp add: slot_of_def)

lemma keeps_exec:
  assumes "with_offset a" "is_offset (slot_of d j)"
  shows "is_offset (slot_of (exec E a d) j)"
proof -
  have j: "1 \<le> j" "j \<le> length (offsets d)"
    using is_offset_slot [OF assms(2)] by simp_all
  show ?thesis
  proof (cases a)
    case CallRef
    then show ?thesis
      using assms(2) j(2) by (simp add: slot_ref)
  next
    case (CallWrite c)
    then show ?thesis
      using assms(2) by simp
  next
    case (CallRefEnd r)
    then show ?thesis
      using assms j by (simp add: slot_refEnd)
  next
    case (CallEnd i)
    then show ?thesis
      using assms(2) by (simp add: keeps_reference_end)
  qed
qed

lemma keeps_run:
  "\<forall>a \<in> set as. with_offset a \<Longrightarrow> is_offset (slot_of d j)
     \<Longrightarrow> is_offset (slot_of (run E as d) j)"
proof (induction as arbitrary: d)
  case Nil
  then show ?case by simp
next
  case (Cons a as)
  have "is_offset (slot_of (exec E a d) j)"
    using Cons.prems by (simp add: keeps_exec)
  then show ?case
    using Cons.IH [of "exec E a d"] Cons.prems(1) by simp
qed

lemma recorded_page_end:
  assumes "1 \<le> dictionary p" "dictionary p \<le> length (offsets d)"
    "1 \<le> content p" "content p \<le> length (offsets d)"
  shows "recorded p (page_end E p d)"
proof -
  let ?s = "reference_end E (dictionary p) d"
  have a: "is_offset (slot_of ?s (dictionary p))"
    using assms(1,2) by (simp add: slot_reference_end)
  have l: "content p \<le> length (offsets ?s)"
    using assms(4) length_offsets_reference_end [of d E "dictionary p"] by linarith
  have "is_offset (slot_of (reference_end E (content p) ?s) (dictionary p))"
    by (rule keeps_reference_end [OF a])
  moreover have "is_offset (slot_of (reference_end E (content p) ?s) (content p))"
    using assms(3) l by (simp add: slot_reference_end)
  ultimately show ?thesis
    by (simp add: recorded_def page_end_def)
qed

lemma keeps_page_end:
  "is_offset (slot_of d j) \<Longrightarrow> is_offset (slot_of (page_end E p d) j)"
  by (simp add: page_end_def keeps_reference_end)

lemma keeps_flush_fold:
  "\<forall>p \<in> set ps. \<forall>a \<in> set (endPageMarkings E p). with_offset a \<Longrightarrow> is_offset (slot_of s j)
     \<Longrightarrow> is_offset (slot_of
           (fold (\<lambda>p s. page_end E p (run E (endPageMarkings E p) s)) ps s) j)"
proof (induction ps arbitrary: s)
  case Nil
  then show ?case by simp
next
  case (Cons p ps)
  have "is_offset (slot_of (run E (endPageMarkings E p) s) j)"
    using Cons.prems by (simp add: keeps_run)
  then have "is_offset (slot_of (page_end E p (run E (endPageMarkings E p) s)) j)"
    by (rule keeps_page_end)
  then show ?case
    using Cons.IH [of "page_end E p (run E (endPageMarkings E p) s)"] Cons.prems(1) by simp
qed

lemma slot_of_buffer [simp]:
  "slot_of (d\<lparr>pageBuffer := a, pageBufferStart := b\<rparr>) j = slot_of d j"
  by (simp add: slot_of_def)

lemma keeps_flushPages:
  "\<forall>p \<in> set (pageBuffer d). \<forall>a \<in> set (endPageMarkings E p). with_offset a
     \<Longrightarrow> is_offset (slot_of d j) \<Longrightarrow> is_offset (slot_of (flushPages E d) j)"
  using keeps_flush_fold [of "pageBuffer d" E
      "d\<lparr>pageBuffer := [], pageBufferStart := pageBufferStart d + length (pageBuffer d)\<rparr>" j]
  by (simp add: flushPages_def Let_def)

lemma flushPages_single:
  "pageBuffer d = [p] \<Longrightarrow>
     flushPages E d = page_end E p (run E (endPageMarkings E p)
       (d\<lparr>pageBuffer := [], pageBufferStart := pageBufferStart d + 1\<rparr>))"
  by (simp add: flushPages_def Let_def)

lemma recorded_flushPages:
  assumes "pageBuffer d = [p]" "1 \<le> dictionary p" "dictionary p \<le> length (offsets d)"
    "1 \<le> content p" "content p \<le> length (offsets d)"
  shows "recorded p (flushPages E d)"
proof -
  let ?r = "run E (endPageMarkings E p)
      (d\<lparr>pageBuffer := [], pageBufferStart := pageBufferStart d + 1\<rparr>)"
  have l: "length (offsets d) \<le> length (offsets ?r)"
    using length_offsets_run
      [of "d\<lparr>pageBuffer := [], pageBufferStart := pageBufferStart d + 1\<rparr>" E
        "endPageMarkings E p"]
    by simp
  have "recorded p (page_end E p ?r)"
    by (rule recorded_page_end) (use assms l in linarith)+
  then show ?thesis
    by (simp add: flushPages_single [OF assms(1)])
qed

lemma slot_addPage:
  "1 \<le> j \<Longrightarrow> j \<le> length (offsets (flushed E d)) \<Longrightarrow>
     slot_of (addPage E opts d) j = slot_of (flushed E d) j"
  by (cases j) (simp_all add: slot_of_def addPage_fields nth_append)

lemma keeps_addPage:
  assumes "\<forall>p \<in> set (pageBuffer d). \<forall>a \<in> set (endPageMarkings E p). with_offset a"
    "is_offset (slot_of d j)"
  shows "is_offset (slot_of (addPage E opts d) j)"
proof -
  have "is_offset (slot_of (flushed E d) j)"
    using assms keeps_flushPages [of d E j] by (simp add: flushed_def)
  then show ?thesis
    using is_offset_slot [of "flushed E d" j] by (simp add: slot_addPage)
qed

lemma recorded_addPage:
  assumes "\<not> truthy (bufferPages (options d))"
    "pageBuffer d = [p]" "1 \<le> dictionary p" "dictionary p \<le> length (offsets d)"
    "1 \<le> content p" "content p \<le> length (offsets d)"
  shows "recorded p (addPage E opts d)"
proof -
  have r: "recorded p (flushPages E d)"
    by (rule recorded_flushPages [OF assms(2-)])
  have f: "flushed E d = flushPages E d"
    by (rule flushed_cases(1) [OF assms(1)])
  show ?thesis
    using r is_offset_slot [of "flushPages E d" "dictionary p"]
      is_offset_slot [of "flushPages E d" "content p"]
    by (simp add: recorded_def slot_addPage f)
qed

lemma content_created: "content (created E opts d) = length (offsets (flushed E d)) + 1"
  by (simp add: created_def new_page_eq)

lemma unrecorded_addPage: "unrecorded (created E opts d) (addPage E opts d)"
  by (simp add: unrecorded_def slot_of_def dictionary_created content_created addPage_fields
      nth_append)

subsection \<open>One resident page\<close>

lemma allocated_mono:
  "allocated p d \<Longrightarrow> length (offsets d) \<le> length (offsets e) \<Longrightarrow> allocated p e"
  by (simp add: allocated_def)

lemma length_offsets_addPage: "length (offsets d) \<le> length (offsets (addPage E opts d))"
  using length_offsets_flushed [of d E] by (simp add: addPage_fields)

lemma allocated_created: "allocated (created E opts d) (addPage E opts d)"
  by (simp add: allocated_def dictionary_created content_created addPage_fields)

lemma serialised_grows: "serialised p xs \<Longrightarrow> serialised p (xs @ cs)"
  by (simp add: serialised_def)

lemma serialised_written:
  "out e = out d @ cs \<Longrightarrow> serialised p (written d e) \<Longrightarrow> serialised p (out e)"
  by (simp add: serialised_def)

lemma one_resident_addPage:
  assumes u: "\<not> truthy (bufferPages (options d))" and i: "one_resident E d ps"
  shows "one_resident E (addPage E opts d) (ps @ [created E opts d])"
proof -
  let ?e = "addPage E opts d"
  let ?c = "created E opts d"
  obtain cs where cs: "out ?e = out d @ cs"
    using grows_addPage by blast
  have b: "pageBuffer ?e = [?c]"
    using u by (simp add: addPage_fields flushed_cases)
  have a: "\<forall>p \<in> set (ps @ [?c]). allocated p ?e"
    using i allocated_mono [OF _ length_offsets_addPage [of d E opts]]
    by (auto simp add: one_resident_def allocated_created)
  have n: "unrecorded ?c ?e"
    by (rule unrecorded_addPage)
  have s: "serialised p (out ?e)" if "p \<in> set ps" for p
  proof (cases "p \<in> set (butlast ps)")
    case True
    then have "serialised p (out d)"
      using i by (simp add: one_resident_def)
    then show ?thesis
      by (simp add: cs serialised_grows)
  next
    case False
    then have "p = last ps" "ps \<noteq> []"
      using that by (cases ps rule: rev_cases; simp)+
    then have "p \<in> set (pageBuffer d)"
      using i by (simp add: one_resident_def)
    then have "serialised p (written d ?e)"
      by (rule written_addPage [OF u])
    then show ?thesis
      by (rule serialised_written [OF cs])
  qed
  have r: "recorded p ?e"
    if t: "\<forall>p. \<forall>a \<in> set (endPageMarkings E p). with_offset a" and "p \<in> set ps" for p
  proof (cases "p \<in> set (butlast ps)")
    case True
    then have "recorded p d"
      using i t by (simp add: one_resident_def)
    then show ?thesis
      using t by (simp add: recorded_def keeps_addPage)
  next
    case False
    then have l: "p = last ps" "ps \<noteq> []"
      using that(2) by (cases ps rule: rev_cases; simp)+
    then have "pageBuffer d = [p]" "allocated p d"
      using i that(2) by (simp_all add: one_resident_def)
    then show ?thesis
      using recorded_addPage [OF u, of p E opts] by (simp add: allocated_def)
  qed
  show ?thesis
    unfolding one_resident_def using b a n s r by simp
qed

lemma one_resident_fold:
  "\<not> truthy (bufferPages (options d)) \<Longrightarrow> one_resident E d ps
     \<Longrightarrow> one_resident E (fold (addPage E) os d) (ps @ added E os d)"
proof (induction os arbitrary: d ps)
  case Nil
  then show ?case by simp
next
  case (Cons x os)
  have "one_resident E (addPage E x d) (ps @ [created E x d])"
    by (rule one_resident_addPage [OF Cons.prems])
  moreover have "\<not> truthy (bufferPages (options (addPage E x d)))"
    using Cons.prems(1) by (simp add: addPage_fields)
  ultimately have "one_resident E (fold (addPage E) os (addPage E x d))
      ((ps @ [created E x d]) @ added E os (addPage E x d))"
    by (rule Cons.IH [rotated])
  then show ?case
    by (simp add: addPage_fields)
qed

lemma one_resident_ctor:
  assumes "\<not> truthy (bufferPages opts)"
  shows "one_resident E (PDFDocument E opts) (pageBuffer (PDFDocument E opts))"
proof -
  obtain b where b:
    "PDFDocument E opts = (if autoFirstPage opts \<noteq> Bool False then addPage E None b else b)"
    "options b = opts" "version b = pdf_version (pdfVersion opts)"
    "pageBuffer b = []" "pageBufferStart b = 0" "Kids b = []" "Count b = 0"
    "page b = None" "Pages b = 1" "Names b = 2"
    "root b = 3" "Dests b = Map.empty" "waiting b = opened E opts"
    "(ViewerPreferences b = None) = (\<not> truthy (displayTitle opts))"
    "(security b = None) = (\<not> secured E opts)"
    "\<not> ended b" "completions b = 0"
    by (rule ctor_base)
  have e: "one_resident E b []"
    by (simp add: one_resident_def b(4))
  have u: "\<not> truthy (bufferPages (options b))"
    using assms by (simp add: b(2))
  show ?thesis
  proof (cases "autoFirstPage opts \<noteq> Bool False")
    case True
    have "one_resident E (addPage E None b) ([] @ [created E None b])"
      by (rule one_resident_addPage [OF u e])
    moreover have "pageBuffer (addPage E None b) = [created E None b]"
      by (simp add: addPage_fields flushed_empty [OF b(4)] b(4))
    ultimately show ?thesis
      using True by (simp add: b(1))
  next
    case False
    then show ?thesis
      using e by (simp add: b(1) b(4))
  qed
qed

lemma one_resident_document:
  "\<not> truthy (bufferPages opts) \<Longrightarrow> one_resident E (document E opts os) (history E opts os)"
  unfolding document_def history_def
  by (rule one_resident_fold) (simp_all add: ctor_fields one_resident_ctor)

subsection \<open>The default document\<close>

lemma ctor_offsets:
  assumes "init_mixins E = []" "\<not> truthy (displayTitle opts)" "\<not> secured E opts"
  shows "offsets (PDFDocument E opts)
           = replicate (if autoFirstPage opts \<noteq> Bool False then 5 else 3) Pending"
proof -
  define d2 where "d2 = (snd (ref (fresh opts)))\<lparr>Pages := rid (fst (ref (fresh opts))), Count := 0, Kids := []\<rparr>"
  define d4 where "d4 = (snd (ref d2))\<lparr>Names := rid (fst (ref d2)), Dests := Map.empty\<rparr>"
  define d6 where "d6 = (snd (ref d4))\<lparr>root := rid (fst (ref d4))\<rparr>"
  define d7 where "d7 = (if truthy (lang opts) then d6\<lparr>Lang := Some (lang opts)\<rparr> else d6)"
  define d8 where "d8 = d7\<lparr>page := None\<rparr>"
  define d9 where "d9 = run E (init_mixins E) d8"
  define d10 where "d10 = d9\<lparr>info := fold (\<lambda>(key, val). obj_set key val) (for_in (opt_info opts))
                    [(''Producer'', Str ''PDFKit''), (''Creator'', Str ''PDFKit''),
                     (''CreationDate'', now E)]\<rparr>"
  define d11 where "d11 = (if truthy (displayTitle opts)
                 then (snd (ref d10))\<lparr>ViewerPreferences := Some (rid (fst (ref d10)))\<rparr>
                 else d10)"
  define d12 where "d12 = d11\<lparr>file_id := generateFileID E (info d11)\<rparr>"
  define d13 where "d13 = security_create E opts d12"
  define d14 where "d14 = put (''%PDF-'' @ version_text (version d13)) d13"
  define d15 where "d15 = put [CHR ''%'', CHR 0xFF, CHR 0xFF, CHR 0xFF, CHR 0xFF] d14"
  have e: "PDFDocument E opts = (if autoFirstPage opts \<noteq> Bool False then addPage E None d15 else d15)"
    unfolding PDFDocument_def Let_def case_prod_unfold d2_def d4_def d6_def d7_def d8_def d9_def
      d10_def d11_def d12_def d13_def d14_def d15_def ..
  have o8: "offsets d8 = [Pending, Pending, Pending]" "pageBuffer d8 = []"
    by (simp_all add: d8_def d7_def d6_def d4_def d2_def fresh_def)
  have o13: "offsets d13 = [Pending, Pending, Pending]" "pageBuffer d13 = []"
    using o8 assms
    by (simp_all add: d13_def security_create_def d12_def d11_def d10_def d9_def)
  have o15: "offsets d15 = [Pending, Pending, Pending]" "pageBuffer d15 = []"
    using o13 by (simp_all add: d15_def d14_def)
  have "offsets (addPage E None d15) = [Pending, Pending, Pending, Pending, Pending]"
    by (simp add: addPage_fields flushed_empty [OF o15(2)] o15(1))
  then show ?thesis
    by (simp add: e o15(1) numeral_eq_Suc)
qed

lemma length_offsets_page_end_in:
  "allocated p d \<Longrightarrow> length (offsets (page_end E p d)) = length (offsets d)"
  by (simp add: allocated_def page_end_def offsets_reference_end length_array_set_in)

lemma created_eq:
  "created E None d =
     \<lparr>dictionary = length (offsets (flushed E d)) + 2,
      content = length (offsets (flushed E d)) + 1,
      width = fst (dimensions E (options d)), height = snd (dimensions E (options d))\<rparr>"
  by (simp add: created_def new_page_eq)

lemma ctor0_buffer:
  "pageBuffer (PDFDocument env0 opts0)
     = [\<lparr>dictionary = 5, content = 4, width = 612, height = 792\<rparr>]"
  "length (offsets (PDFDocument env0 opts0)) = 5"
proof -
  let ?D = "PDFDocument env0 opts0"
  obtain b where b:
    "?D = (if autoFirstPage opts0 \<noteq> Bool False then addPage env0 None b else b)"
    "options b = opts0" "version b = pdf_version (pdfVersion opts0)"
    "pageBuffer b = []" "pageBufferStart b = 0" "Kids b = []" "Count b = 0"
    "page b = None" "Pages b = 1" "Names b = 2"
    "root b = 3" "Dests b = Map.empty" "waiting b = opened env0 opts0"
    "(ViewerPreferences b = None) = (\<not> truthy (displayTitle opts0))"
    "(security b = None) = (\<not> secured env0 opts0)"
    "\<not> ended b" "completions b = 0"
    by (rule ctor_base)
  have f: "flushed env0 b = b"
    by (rule flushed_empty [OF b(4)])
  have l: "length (offsets ?D) = 5"
    by (simp add: ctor_offsets)
  have e: "?D = addPage env0 None b"
    by (simp add: b(1))
  have "length (offsets b) = 3"
    using l unfolding e by (simp add: addPage_fields f)
  then have "pageBuffer (addPage env0 None b)
      = [\<lparr>dictionary = 5, content = 4, width = 612, height = 792\<rparr>]"
    by (simp add: addPage_fields created_eq f b(2) b(4))
  then show "pageBuffer ?D = [\<lparr>dictionary = 5, content = 4, width = 612, height = 792\<rparr>]"
    by (simp add: e)
  show "length (offsets ?D) = 5"
    by (rule l)
qed

lemma addPage0:
  assumes "options d = opts0" "pageBuffer d = [p]" "allocated p d"
  shows "options (addPage env0 None d) = opts0"
    "length (offsets (addPage env0 None d)) = length (offsets d) + 2"
    "pageBuffer (addPage env0 None d)
       = [\<lparr>dictionary = length (offsets d) + 2, content = length (offsets d) + 1,
           width = 612, height = 792\<rparr>]"
    "page (addPage env0 None d)
       = Some \<lparr>dictionary = length (offsets d) + 2, content = length (offsets d) + 1,
           width = 612, height = 792\<rparr>"
proof -
  let ?d0 = "d\<lparr>pageBuffer := [], pageBufferStart := pageBufferStart d + 1\<rparr>"
  have f: "flushed env0 d = page_end env0 p ?d0"
    using assms(1) by (simp add: flushed_def flushPages_single [OF assms(2)])
  have a: "allocated p ?d0"
    using assms(3) by (simp add: allocated_def)
  have l: "length (offsets (flushed env0 d)) = length (offsets d)"
    unfolding f using length_offsets_page_end_in [OF a, of env0] by simp
  have b: "pageBuffer (flushed env0 d) = []"
    using assms(1) by (simp add: flushed_def)
  show "options (addPage env0 None d) = opts0"
    by (simp add: addPage_fields assms(1))
  show "length (offsets (addPage env0 None d)) = length (offsets d) + 2"
    by (simp add: addPage_fields l)
  show "pageBuffer (addPage env0 None d)
       = [\<lparr>dictionary = length (offsets d) + 2, content = length (offsets d) + 1,
           width = 612, height = 792\<rparr>]"
    by (simp add: addPage_fields created_eq l b assms(1))
  show "page (addPage env0 None d)
       = Some \<lparr>dictionary = length (offsets d) + 2, content = length (offsets d) + 1,
           width = 612, height = 792\<rparr>"
    by (simp add: addPage_fields created_eq l assms(1))
qed

lemma history0:
  "history env0 opts0 [None, None]
     = [\<lparr>dictionary = 5, content = 4, width = 612, height = 792\<rparr>,
        \<lparr>dictionary = 7, content = 6, width = 612, height = 792\<rparr>,
        \<lparr>dictionary = 9, content = 8, width = 612, height = 792\<rparr>]"
proof -
  let ?D = "PDFDocument env0 opts0"
  let ?D1 = "addPage env0 None ?D"
  have o: "options ?D = opts0"
    by (simp add: ctor_fields)
  have a: "allocated \<lparr>dictionary = 5, content = 4, width = 612, height = 792\<rparr> ?D"
    by (simp add: allocated_def ctor0_buffer(2))
  note s1 = addPage0 [OF o ctor0_buffer(1) a]
  have b1: "pageBuffer ?D1 = [\<lparr>dictionary = 7, content = 6, width = 612, height = 792\<rparr>]"
    using s1(3) by (simp add: ctor0_buffer(2))
  have a1: "allocated \<lparr>dictionary = 7, content = 6, width = 612, height = 792\<rparr> ?D1"
    by (simp add: allocated_def s1(2) ctor0_buffer(2))
  note s2 = addPage0 [OF s1(1) b1 a1]
  show ?thesis
    by (simp add: history_def ctor0_buffer s1(2,4) s2(4))
qed

lemma ctor0_waiting: "waiting (PDFDocument env0 opts0) = 5"
  by (simp add: ctor_fields opened_def)

section \<open>The claims\<close>

text \<open>
  C1. \<^verbatim>\<open>end()\<close> never emits the cross-reference table, the trailer and the end-of-file
  marker while the counter \<^verbatim>\<open>_waiting\<close> is not zero, and \<^verbatim>\<open>_finalize\<close> runs exactly once
  the counter reaches zero: inside \<^verbatim>\<open>end()\<close> when it is zero at line 334, or later inside
  the \<^verbatim>\<open>_refEnd\<close> that brings it to zero after \<^verbatim>\<open>end()\<close> has set the flag.
  The decision of \<^verbatim>\<open>end()\<close> completes the file exactly when the counter is zero and
  otherwise only sets the flag; a call of a collaborator completes the file exactly when
  it completes a reference, the counter was one and the flag was set, and then the
  counter is zero; for a document that has not ended before, \<^verbatim>\<open>end()\<close> as a whole
  closes the stream once when the counter is zero at its end and not at all otherwise;
  and after a deferred end with \<open>n\<close> references outstanding, \<open>k\<close> completions have
  closed the stream once when \<open>n \<le> k\<close> and not at all before.
\<close>

theorem end_completes_when_counter_is_zero:
  "doc_end E d = end_decision E (end_prefix E d)
   \<and> end_decision E p = (if waiting p = 0 then doc_finalize E p else p\<lparr>ended := True\<rparr>)
   \<and> completions (doc_finalize E p) = completions p + 1
   \<and> completions (exec E a s)
       = completions s + (if is_end a \<and> waiting s = 1 \<and> ended s then 1 else 0)
   \<and> waiting (exec E a s)
       = waiting s + (if a = CallRef then 1 else 0) - (if is_end a then 1 else 0)
   \<and> ended (exec E a s) = (ended s \<and> \<not> (is_end a \<and> waiting s = 1))
   \<and> (completions (exec E a s) \<noteq> completions s \<longrightarrow> waiting (exec E a s) = 0)
   \<and> (\<not> ended d \<longrightarrow>
        completions (doc_end E d)
          = completions d + (if waiting (doc_end E d) = 0 then 1 else 0)
        \<and> ended (doc_end E d) = (waiting (doc_end E d) \<noteq> 0))
   \<and> (\<not> ended d \<and> list_all is_end as \<and> 0 < waiting (doc_end E d) \<longrightarrow>
        (\<forall>k \<le> length as.
           completions (run E (take k as) (doc_end E d))
             = completions d + (if waiting (doc_end E d) \<le> int k then 1 else 0)))"
proof -
  have c: "completions (exec E a s) \<noteq> completions s \<longrightarrow> waiting (exec E a s) = 0"
    by (simp add: completions_exec waiting_exec)
  have l: "completions (run E (take k as) (doc_end E d))
             = completions d + (if waiting (doc_end E d) \<le> int k then 1 else 0)"
    if h: "\<not> ended d" "list_all is_end as" "0 < waiting (doc_end E d)" and k: "k \<le> length as"
    for k
  proof -
    have e: "ended (doc_end E d)" "completions (doc_end E d) = completions d"
      using doc_end_props(2,3) [OF h(1), of E] h(3) by simp_all
    have t: "list_all is_end (take k as)"
      using h(2) by (simp add: list_all_iff) (meson in_set_takeD)
    show ?thesis
      using countdown [OF t e(1) h(3), of E] e(2) k by simp
  qed
  show ?thesis
    using c l doc_end_props(2,3) [of d E]
    by (simp add: doc_end_def end_decision_def completions_exec waiting_exec ended_exec)
qed

theorem end_completes_when_counter_is_zero_witness:
  "\<not> ended (PDFDocument env0 opts0)
   \<and> waiting (doc_end env0 (PDFDocument env0 opts0)) = 0
   \<and> completions (doc_end env0 (PDFDocument env0 opts0)) = 1
   \<and> \<not> ended (snd (ref (PDFDocument env0 opts0)))
   \<and> waiting (doc_end env0 (snd (ref (PDFDocument env0 opts0)))) = 1
   \<and> completions (doc_end env0 (snd (ref (PDFDocument env0 opts0)))) = 0
   \<and> ended (doc_end env0 (snd (ref (PDFDocument env0 opts0))))
   \<and> list_all is_end [CallEnd 6]
   \<and> completions (run env0 [CallEnd 6] (doc_end env0 (snd (ref (PDFDocument env0 opts0))))) = 1"
proof -
  let ?D = "PDFDocument env0 opts0"
  let ?R = "snd (ref ?D)"
  have n: "\<not> ended ?D" "\<not> ended ?R"
    by (simp_all add: ctor_fields)
  have b: "length (pageBuffer ?D) = 1" "ViewerPreferences ?D = None" "security ?D = None"
    using ctor_fields(6,10,11) [of env0 opts0] by simp_all
  have w: "waiting ?D = 5"
    by (simp add: ctor_fields opened_def)
  obtain pg where pg: "pageBuffer ?D = [pg]"
    using b(1) by (cases "pageBuffer ?D") simp_all
  have c: "closing env0 ?D = - 5" "closing env0 ?R = - 5"
    by (simp_all add: closing_def pg b)
  have w0: "waiting (doc_end env0 ?D) = 0" "waiting (doc_end env0 ?R) = 1"
    by (simp_all add: doc_end_props(1) w c)
  have cz: "completions ?D = 0" "completions ?R = 0"
    by (simp_all add: ctor_fields)
  note syncD = end_completes_when_counter_is_zero [of env0 ?D, THEN conjunct2, THEN conjunct2,
      THEN conjunct2, THEN conjunct2, THEN conjunct2, THEN conjunct2, THEN conjunct2,
      THEN conjunct1]
  note syncR = end_completes_when_counter_is_zero [of env0 ?R, THEN conjunct2, THEN conjunct2,
      THEN conjunct2, THEN conjunct2, THEN conjunct2, THEN conjunct2, THEN conjunct2,
      THEN conjunct1]
  note later = end_completes_when_counter_is_zero [of env0 ?R _ _ _ "[CallEnd 6]",
      THEN conjunct2, THEN conjunct2, THEN conjunct2, THEN conjunct2,
      THEN conjunct2, THEN conjunct2, THEN conjunct2, THEN conjunct2]
  have s: "completions (doc_end env0 ?D) = 1"
    using syncD n(1) w0(1) cz(1) by simp
  have r: "completions (doc_end env0 ?R) = 0" "ended (doc_end env0 ?R)"
    using syncR n(2) w0(2) cz(2) by simp_all
  have A: "\<forall>k \<le> length [CallEnd 6]. completions (run env0 (take k [CallEnd 6]) (doc_end env0 ?R))
             = completions ?R + (if waiting (doc_end env0 ?R) \<le> int k then 1 else 0)"
    using later n(2) w0(2) by simp
  have f: "completions (run env0 [CallEnd 6] (doc_end env0 ?R)) = 1"
    using A [rule_format, of 1] w0(2) cz(2) by simp
  show ?thesis
    using n w0 s r f by simp
qed

text \<open>
  C2. For every sequence of \<^verbatim>\<open>ref\<close> calls on a document the i-th call returns the id
  \<open>i\<close>: ids are 1, 2, 3, ... in call order, with no gap and none used twice, and after
  every allocation \<^verbatim>\<open>_offsets\<close> has as many slots as references were ever allocated,
  each allocation pushing one placeholder. The calls may be interleaved with writes and
  with completions of references allocated before; they start on the fresh object, whose
  store is empty, or on any document \<open>d\<close>, where the count continues from the length of
  \<open>offsets d\<close>. The three references the constructor allocates first have the ids 1, 2
  and 3.
\<close>

theorem ref_ids_sequential:
  "rid (fst (ref d)) = length (offsets d) + 1
   \<and> offsets (snd (ref d)) = offsets d @ [Pending]
   \<and> (known E as (fresh opts) \<longrightarrow>
        allocations E as (fresh opts) = [1 ..< Suc (refs as)]
        \<and> (\<forall>k \<le> length as. length (offsets (run E (take k as) (fresh opts))) = refs (take k as)))
   \<and> (known E as d \<longrightarrow>
        allocations E as d = [length (offsets d) + 1 ..< length (offsets d) + 1 + refs as]
        \<and> length (offsets (run E as d)) = length (offsets d) + refs as)
   \<and> Pages (PDFDocument E opts) = 1 \<and> Names (PDFDocument E opts) = 2
   \<and> root (PDFDocument E opts) = 3"
proof -
  have a: "rid (fst (ref d)) = length (offsets d) + 1" "offsets (snd (ref d)) = offsets d @ [Pending]"
    by (simp_all add: ref_def)
  have e: "offsets (fresh opts) = []"
    by (simp add: fresh_def)
  have b: "allocations E as (fresh opts) = [1 ..< Suc (refs as)]" if "known E as (fresh opts)"
    using known_allocations [OF that] e by simp
  have c: "length (offsets (run E (take k as) (fresh opts))) = refs (take k as)"
    if "known E as (fresh opts)" for k
    using known_allocations [OF known_take [OF that, of k]] e by simp
  show ?thesis
    using a b c known_allocations [of E as d] ctor_fields(12-14) [of E opts] by blast
qed

theorem ref_ids_sequential_witness:
  "known env0 [CallRef, CallWrite (Text ''x''), CallRef, CallEnd 1, CallRef] (fresh opts0)
   \<and> allocations env0 [CallRef, CallWrite (Text ''x''), CallRef, CallEnd 1, CallRef] (fresh opts0)
       = [1, 2, 3]
   \<and> length (offsets (run env0 [CallRef, CallWrite (Text ''x''), CallRef, CallEnd 1, CallRef]
        (fresh opts0))) = 3"
proof -
  let ?as = "[CallRef, CallWrite (Text ''x''), CallRef, CallEnd 1, CallRef]"
  have k: "known env0 ?as (fresh opts0)"
    by (simp add: fresh_def ref_def doc_write_def Let_def offsets_reference_end
        length_array_set_in)
  have r: "refs ?as = 3"
    by (simp add: refs_def)
  have u: "[1 ..< Suc 3] = [1, 2, 3::nat]"
    by (simp add: upt_conv_Cons)
  have "known env0 ?as (fresh opts0) \<longrightarrow>
        allocations env0 ?as (fresh opts0) = [1 ..< Suc (refs ?as)]
        \<and> (\<forall>k \<le> length ?as. length (offsets (run env0 (take k ?as) (fresh opts0)))
              = refs (take k ?as))"
    using ref_ids_sequential [of "fresh opts0" env0 ?as opts0] by blast
  with k have A: "allocations env0 ?as (fresh opts0) = [1 ..< Suc (refs ?as)]"
    and B: "\<forall>k \<le> length ?as. length (offsets (run env0 (take k ?as) (fresh opts0)))
              = refs (take k ?as)"
    by blast+
  have "length (offsets (run env0 (take (length ?as) ?as) (fresh opts0)))
      = refs (take (length ?as) ?as)"
    using B by blast
  then have C: "length (offsets (run env0 ?as (fresh opts0))) = 3"
    unfolding take_all [OF order_refl] r .
  show ?thesis
    using k A C unfolding r u by blast
qed

text \<open>
  C3, as amended. The cross-reference table \<^verbatim>\<open>_finalize\<close> emits has exactly
  \<open>length (offsets d) + 1\<close> entry lines: first the reserved free entry
  \<^verbatim>\<open>0000000000 65535 f \<close>, then one line of fixed width for each allocated id, in id
  order; the subheader is \<^verbatim>\<open>0 \<close> followed by that count, and the trailer's \<open>Size\<close> is
  that count. The line of an id whose recorded offset is below \<open>10^10\<close> is the offset in
  ten decimal digits, padded with zeros, followed by \<^verbatim>\<open> 00000 n \<close>, and reading the ten
  digits back gives the offset. (Of a larger offset line 349 keeps the last ten digits.)
\<close>

theorem xref_table_lines:
  "out (doc_finalize E d) = out d @ map (\<lambda>s. Bytes (s @ [CHR 0x0A])) (xref_lines E d) @ [EOS]
   \<and> xref_lines E d =
       [''xref'', ''0 '' @ show_nat (length (offsets d) + 1), ''0000000000 65535 f '']
       @ map xref_entry (offsets d)
       @ [''trailer'', convert E (trailer_of d), ''startxref'', show_nat (offset d), ''%%EOF'']
   \<and> length (''0000000000 65535 f '' # map xref_entry (offsets d)) = length (offsets d) + 1
   \<and> Size (trailer_of d) = length (offsets d) + 1
   \<and> (\<forall>k < length (offsets d).
        xref_lines E d ! (3 + k) = xref_entry (offsets d ! k)
        \<and> length (xref_lines E d ! (3 + k)) = 19
        \<and> (\<forall>n < 10 ^ 10. offsets d ! k = Offset n \<longrightarrow>
             xref_lines E d ! (3 + k)
               = replicate (10 - length (show_nat n)) (CHR ''0'') @ show_nat n @ '' 00000 n ''
             \<and> (\<forall>c \<in> set (take 10 (xref_lines E d ! (3 + k))). is_digit c)
             \<and> read_nat (take 10 (xref_lines E d ! (3 + k))) = n))"
proof (intro conjI)
  show "out (doc_finalize E d)
      = out d @ map (\<lambda>s. Bytes (s @ [CHR 0x0A])) (xref_lines E d) @ [EOS]"
    by (rule out_finalize_lines)
  show "xref_lines E d =
       [''xref'', ''0 '' @ show_nat (length (offsets d) + 1), ''0000000000 65535 f '']
       @ map xref_entry (offsets d)
       @ [''trailer'', convert E (trailer_of d), ''startxref'', show_nat (offset d), ''%%EOF'']"
    by (rule xref_lines_def)
  show "length (''0000000000 65535 f '' # map xref_entry (offsets d)) = length (offsets d) + 1"
    by simp
  show "Size (trailer_of d) = length (offsets d) + 1"
    by (simp add: trailer_of_def)
  show "\<forall>k < length (offsets d).
        xref_lines E d ! (3 + k) = xref_entry (offsets d ! k)
        \<and> length (xref_lines E d ! (3 + k)) = 19
        \<and> (\<forall>n < 10 ^ 10. offsets d ! k = Offset n \<longrightarrow>
             xref_lines E d ! (3 + k)
               = replicate (10 - length (show_nat n)) (CHR ''0'') @ show_nat n @ '' 00000 n ''
             \<and> (\<forall>c \<in> set (take 10 (xref_lines E d ! (3 + k))). is_digit c)
             \<and> read_nat (take 10 (xref_lines E d ! (3 + k))) = n)"
  proof (intro allI impI)
    fix k
    assume k: "k < length (offsets d)"
    have n: "xref_lines E d ! (3 + k) = xref_entry (offsets d ! k)"
      using k by (simp add: xref_lines_def nth_append)
    show "xref_lines E d ! (3 + k) = xref_entry (offsets d ! k)
        \<and> length (xref_lines E d ! (3 + k)) = 19
        \<and> (\<forall>n < 10 ^ 10. offsets d ! k = Offset n \<longrightarrow>
             xref_lines E d ! (3 + k)
               = replicate (10 - length (show_nat n)) (CHR ''0'') @ show_nat n @ '' 00000 n ''
             \<and> (\<forall>c \<in> set (take 10 (xref_lines E d ! (3 + k))). is_digit c)
             \<and> read_nat (take 10 (xref_lines E d ! (3 + k))) = n)"
      unfolding n
    proof (intro conjI allI impI)
      show "xref_entry (offsets d ! k) = xref_entry (offsets d ! k)" ..
      show "length (xref_entry (offsets d ! k)) = 19"
        by (rule length_xref_entry)
      fix m :: nat
      assume m: "m < 10 ^ 10" "offsets d ! k = Offset m"
      show "xref_entry (offsets d ! k)
          = replicate (10 - length (show_nat m)) (CHR ''0'') @ show_nat m @ '' 00000 n ''"
        unfolding m(2) by (rule xref_entry_offset(1) [OF m(1)])
      show "\<forall>c \<in> set (take 10 (xref_entry (offsets d ! k))). is_digit c"
        unfolding m(2) by (rule xref_entry_offset(2) [OF m(1)])
      show "read_nat (take 10 (xref_entry (offsets d ! k))) = m"
        unfolding m(2) by (rule xref_entry_offset(3) [OF m(1)])
    qed
  qed
qed

theorem xref_table_lines_witness:
  "offsets (one_ref 15) = [Offset 15]
   \<and> xref_lines env0 (one_ref 15) ! 3 = ''0000000015 00000 n ''
   \<and> read_nat (take 10 (xref_lines env0 (one_ref 15) ! 3)) = 15
   \<and> Size (trailer_of (one_ref 15)) = 2"
proof -
  note T = xref_table_lines [of env0 "one_ref 15", THEN conjunct2, THEN conjunct2,
      THEN conjunct2]
  have k: "(0::nat) < length (offsets (one_ref 15))" and o: "offsets (one_ref 15) ! 0 = Offset 15"
    and b: "(15::nat) < 10 ^ 10"
    by (simp_all add: offsets_one_ref)
  have s: "Size (trailer_of (one_ref 15)) = 2"
    using T [THEN conjunct1] by (simp add: offsets_one_ref)
  note K = T [THEN conjunct2, rule_format, OF k]
  have e: "xref_lines env0 (one_ref 15) ! (3 + 0) = xref_entry (offsets (one_ref 15) ! 0)"
    by (rule K [THEN conjunct1])
  have r: "read_nat (take 10 (xref_lines env0 (one_ref 15) ! (3 + 0))) = 15"
    by (rule K [THEN conjunct2, THEN conjunct2, rule_format, OF b o, THEN conjunct2,
          THEN conjunct2])
  show ?thesis
    using s e r by (simp add: offsets_one_ref xref_entry_values)
qed

text \<open>
  C3 as stated fails: for a reference whose recorded offset is \<open>10^10\<close> the line of its id
  is \<^verbatim>\<open>0000000000 00000 n \<close>, the line of the offset 0, so it does not encode the
  recorded offset.
\<close>

theorem xref_entry_truncates_counterexample:
  "offsets (one_ref 10000000000) = [Offset 10000000000]
   \<and> xref_lines env0 (one_ref 10000000000) ! 3 = ''0000000000 00000 n ''
   \<and> xref_lines env0 (one_ref 0) ! 3 = ''0000000000 00000 n ''
   \<and> read_nat (take 10 (xref_lines env0 (one_ref 10000000000) ! 3)) \<noteq> 10000000000"
  by (simp add: offsets_one_ref xref_lines_def xref_entry_values read_nat_def digit_of_def)

text \<open>
  C4, as amended. Page numbers are absolute and count from zero: for \<open>n\<close> inside the
  buffered window \<^verbatim>\<open>switchToPage(n)\<close> returns the page at \<open>n - pageBufferStart\<close> of the
  buffer and makes it the current page, and it never flushes or finalises a page (the
  buffer, its start index, the bytes written and the reference store stay as they are).
  For a document constructed with \<^verbatim>\<open>bufferPages: true\<close> and three \<^verbatim>\<open>addPage\<close> calls:
  without an automatic first page \<^verbatim>\<open>switchToPage(2)\<close> returns the third added page and
  \<^verbatim>\<open>switchToPage(1)\<close> the second; with the automatic first page, which is page 0,
  \<^verbatim>\<open>switchToPage(2)\<close> returns the second of the three pages the calls added.
\<close>

theorem switchToPage_zero_based:
  "(int (pageBufferStart d) \<le> n \<and> n < int (pageBufferStart d) + int (length (pageBuffer d))
      \<longrightarrow> switchToPage n d
        = (Inr (pageBuffer d ! nat (n - int (pageBufferStart d))),
           d\<lparr>page := Some (pageBuffer d ! nat (n - int (pageBufferStart d)))\<rparr>))
   \<and> pageBuffer (snd (switchToPage n d)) = pageBuffer d
   \<and> pageBufferStart (snd (switchToPage n d)) = pageBufferStart d
   \<and> out (snd (switchToPage n d)) = out d
   \<and> offsets (snd (switchToPage n d)) = offsets d
   \<and> waiting (snd (switchToPage n d)) = waiting d
   \<and> (truthy (bufferPages opts) \<and> length os = 3 \<longrightarrow>
        pageBufferStart (fold (addPage E) os (PDFDocument E opts)) = 0
        \<and> pageBuffer (fold (addPage E) os (PDFDocument E opts))
            = pageBuffer (PDFDocument E opts) @ added E os (PDFDocument E opts)
        \<and> distinct (map dictionary (pageBuffer (fold (addPage E) os (PDFDocument E opts))))
        \<and> (autoFirstPage opts = Bool False \<longrightarrow>
             pageBuffer (PDFDocument E opts) = []
             \<and> fst (switchToPage 2 (fold (addPage E) os (PDFDocument E opts)))
                 = Inr (added E os (PDFDocument E opts) ! 2)
             \<and> fst (switchToPage 1 (fold (addPage E) os (PDFDocument E opts)))
                 = Inr (added E os (PDFDocument E opts) ! 1))
        \<and> (autoFirstPage opts \<noteq> Bool False \<longrightarrow>
             pageBuffer (PDFDocument E opts) = [hd (pageBuffer (PDFDocument E opts))]
             \<and> fst (switchToPage 2 (fold (addPage E) os (PDFDocument E opts)))
                 = Inr (added E os (PDFDocument E opts) ! 1)
             \<and> fst (switchToPage 0 (fold (addPage E) os (PDFDocument E opts)))
                 = Inr (hd (pageBuffer (PDFDocument E opts)))))"
proof -
  let ?D = "PDFDocument E opts"
  let ?F = "fold (addPage E) os ?D"
  have sc: "pageBufferStart ?F = 0"
    "pageBuffer ?F = pageBuffer ?D @ added E os ?D"
    "distinct (map dictionary (pageBuffer ?F))"
    if t: "truthy (bufferPages opts)"
  proof -
    have o: "truthy (bufferPages (options ?D))"
      using t by (simp add: ctor_fields)
    show "pageBufferStart ?F = 0" "pageBuffer ?F = pageBuffer ?D @ added E os ?D"
      using fold_addPage_buffered [OF o, of E os] by (simp_all add: ctor_fields)
    show "distinct (map dictionary (pageBuffer ?F))"
      by (rule ctor_dictionaries [OF t])
  qed
  have off: "pageBuffer ?D = []" "fst (switchToPage 2 ?F) = Inr (added E os ?D ! 2)"
    "fst (switchToPage 1 ?F) = Inr (added E os ?D ! 1)"
    if t: "truthy (bufferPages opts)" and l: "length os = 3" and a: "autoFirstPage opts = Bool False"
  proof -
    show e: "pageBuffer ?D = []"
      by (rule ctor_empty_buffer [OF a])
    have b: "pageBuffer ?F = added E os ?D" "pageBufferStart ?F = 0"
      using sc(1,2) [OF t] e by simp_all
    show "fst (switchToPage 2 ?F) = Inr (added E os ?D ! 2)"
      "fst (switchToPage 1 ?F) = Inr (added E os ?D ! 1)"
      using l by (simp_all add: switchToPage_inside b)
  qed
  have on: "pageBuffer ?D = [hd (pageBuffer ?D)]" "fst (switchToPage 2 ?F) = Inr (added E os ?D ! 1)"
    "fst (switchToPage 0 ?F) = Inr (hd (pageBuffer ?D))"
    if t: "truthy (bufferPages opts)" and l: "length os = 3" and a: "autoFirstPage opts \<noteq> Bool False"
  proof -
    show e: "pageBuffer ?D = [hd (pageBuffer ?D)]"
      by (rule ctor_first_page [OF a])
    have "pageBuffer ?F = [hd (pageBuffer ?D)] @ added E os ?D"
      using sc(2) [OF t] e by metis
    then have b: "pageBuffer ?F = hd (pageBuffer ?D) # added E os ?D" "pageBufferStart ?F = 0"
      using sc(1) [OF t] by simp_all
    show "fst (switchToPage 2 ?F) = Inr (added E os ?D ! 1)"
      "fst (switchToPage 0 ?F) = Inr (hd (pageBuffer ?D))"
      using l by (simp_all add: switchToPage_inside b)
  qed
  show ?thesis
    using sc off on switchToPage_inside [of d n] by simp
qed

theorem switchToPage_zero_based_witness:
  "truthy (bufferPages buffered_opts) \<and> autoFirstPage buffered_opts = Bool False
   \<and> pageBufferStart three_pages = 0
   \<and> fst (switchToPage 2 three_pages)
       = Inr (added env0 [None, None, None] (PDFDocument env0 buffered_opts) ! 2)
   \<and> fst (switchToPage 1 three_pages)
       = Inr (added env0 [None, None, None] (PDFDocument env0 buffered_opts) ! 1)
   \<and> pageBuffer (snd (switchToPage 2 three_pages)) = pageBuffer three_pages"
proof -
  have h: "truthy (bufferPages buffered_opts) \<and> length [None, None, None :: options option] = 3"
    by simp
  note T = switchToPage_zero_based [of three_pages 2 buffered_opts "[None, None, None]" env0]
  note S = T [THEN conjunct2, THEN conjunct2, THEN conjunct2, THEN conjunct2, THEN conjunct2,
      THEN conjunct2, rule_format, OF h]
  have s: "pageBufferStart three_pages = 0"
    unfolding three_pages_def by (rule S [THEN conjunct1])
  have r: "fst (switchToPage 2 three_pages)
       = Inr (added env0 [None, None, None] (PDFDocument env0 buffered_opts) ! 2)"
    "fst (switchToPage 1 three_pages)
       = Inr (added env0 [None, None, None] (PDFDocument env0 buffered_opts) ! 1)"
    unfolding three_pages_def
    using S [THEN conjunct2, THEN conjunct2, THEN conjunct2, THEN conjunct1, rule_format,
        OF buffered_opts_sel(2)]
    by blast+
  have p: "pageBuffer (snd (switchToPage 2 three_pages)) = pageBuffer three_pages"
    by (rule T [THEN conjunct2, THEN conjunct1])
  show ?thesis
    using s r p by simp
qed

text \<open>
  C4 as stated fails: a document constructed with \<^verbatim>\<open>bufferPages: true\<close> and
  \<^verbatim>\<open>autoFirstPage: false\<close>, to which three pages have been added and none flushed,
  returns the third added page for \<^verbatim>\<open>switchToPage(2)\<close>, which is not the second.
\<close>

theorem switchToPage_second_page_counterexample:
  "truthy (bufferPages (options three_pages))
   \<and> length (pageBuffer three_pages) = 3
   \<and> pageBuffer three_pages = added env0 [None, None, None] (PDFDocument env0 buffered_opts)
   \<and> fst (switchToPage 2 three_pages)
       = Inr (added env0 [None, None, None] (PDFDocument env0 buffered_opts) ! 2)
   \<and> fst (switchToPage 2 three_pages)
       \<noteq> Inr (added env0 [None, None, None] (PDFDocument env0 buffered_opts) ! 1)"
proof -
  let ?A = "added env0 [None, None, None] (PDFDocument env0 buffered_opts)"
  have l: "length ?A = 3"
    by (simp del: added.simps)
  have o: "truthy (bufferPages (options three_pages))"
    unfolding three_pages_def fold_addPage_options by (simp add: ctor_fields)
  have r: "fst (switchToPage 2 three_pages) = Inr (?A ! 2)"
    using l by (simp add: switchToPage_inside three_pages_buffer del: added.simps)
  have "?A ! 2 \<noteq> ?A ! 1"
    using three_pages_buffer(3) l unfolding three_pages_buffer(1)
    by (intro nth_dictionary_neq) simp_all
  then show ?thesis
    using l o r three_pages_buffer(1) by simp
qed

text \<open>
  C5. With the option \<^verbatim>\<open>bufferPages\<close> disabled at most one page is unflushed at any
  time: every \<^verbatim>\<open>addPage\<close> first flushes the whole page buffer and then pushes the page
  it creates, so after any sequence of \<^verbatim>\<open>addPage\<close> calls the buffer holds exactly the
  page added last.

  Flushing is more than emptying the buffer. Every page that \<^verbatim>\<open>addPage\<close> (or
  \<^verbatim>\<open>flushPages\<close>) takes out of the buffer is ended: the object headers of its
  dictionary and of its content stream are among the chunks the call writes, the counter
  of outstanding references goes down by two for each such page (and changes by what the
  page hook does), and the offsets of both references are recorded. The page that
  \<^verbatim>\<open>addPage\<close> creates is not ended: both its slots hold the placeholder.

  For the document after the constructor and any sequence of \<^verbatim>\<open>addPage\<close> calls: the
  buffer holds the page created last and nothing else; every earlier page is serialised
  in the output; every earlier page is recorded, provided the calls of the page hook
  that complete a reference carry its offset; and the page created last is not recorded.
\<close>

theorem unbuffered_at_most_one_page:
  "(\<not> truthy (bufferPages (options d)) \<longrightarrow>
      addPage E given d = addPage E given (flushPages E d)
      \<and> pageBuffer (addPage E given d) = [the (page (addPage E given d))]
      \<and> pageBufferStart (addPage E given d) = pageBufferStart d + length (pageBuffer d)
      \<and> (os \<noteq> [] \<longrightarrow>
           pageBuffer (fold (addPage E) os d) = [the (page (fold (addPage E) os d))])
      \<and> (length (pageBuffer d) \<le> 1 \<longrightarrow> length (pageBuffer (fold (addPage E) os d)) \<le> 1)
      \<and> (\<forall>p \<in> set (pageBuffer d). serialised p (written d (addPage E given d)))
      \<and> waiting (addPage E given d)
          = waiting d + (\<Sum>p\<leftarrow>pageBuffer d. delta (endPageMarkings E p) - 2) + 2
      \<and> (pageBuffer d = [q] \<and> allocated q d \<longrightarrow> recorded q (addPage E given d))
      \<and> unrecorded (the (page (addPage E given d))) (addPage E given d))
   \<and> pageBuffer (flushPages E d) = []
   \<and> (\<forall>p \<in> set (pageBuffer d). serialised p (written d (flushPages E d)))
   \<and> (\<not> truthy (bufferPages opts) \<longrightarrow>
        length (pageBuffer (PDFDocument E opts)) \<le> 1
        \<and> length (pageBuffer (fold (addPage E) os (PDFDocument E opts))) \<le> 1
        \<and> pageBuffer (document E opts os)
            = (if history E opts os = [] then [] else [last (history E opts os)])
        \<and> (\<forall>p \<in> set (butlast (history E opts os)). serialised p (out (document E opts os)))
        \<and> ((\<forall>p. \<forall>a \<in> set (endPageMarkings E p). with_offset a) \<longrightarrow>
             (\<forall>p \<in> set (butlast (history E opts os)). recorded p (document E opts os)))
        \<and> (history E opts os \<noteq> [] \<longrightarrow>
             unrecorded (last (history E opts os)) (document E opts os)))"
proof -
  have A: "addPage E given d = addPage E given (flushPages E d)
      \<and> pageBuffer (addPage E given d) = [the (page (addPage E given d))]
      \<and> pageBufferStart (addPage E given d) = pageBufferStart d + length (pageBuffer d)
      \<and> (os \<noteq> [] \<longrightarrow>
           pageBuffer (fold (addPage E) os d) = [the (page (fold (addPage E) os d))])
      \<and> (length (pageBuffer d) \<le> 1 \<longrightarrow> length (pageBuffer (fold (addPage E) os d)) \<le> 1)
      \<and> (\<forall>p \<in> set (pageBuffer d). serialised p (written d (addPage E given d)))
      \<and> waiting (addPage E given d)
          = waiting d + (\<Sum>p\<leftarrow>pageBuffer d. delta (endPageMarkings E p) - 2) + 2
      \<and> (pageBuffer d = [q] \<and> allocated q d \<longrightarrow> recorded q (addPage E given d))
      \<and> unrecorded (the (page (addPage E given d))) (addPage E given d)"
    if u: "\<not> truthy (bufferPages (options d))"
  proof -
    have a1: "addPage E given d = addPage E given (flushPages E d)"
      by (rule addPage_flush_first [OF u])
    have a2: "pageBuffer (addPage E given d) = [the (page (addPage E given d))]"
      by (rule addPage_unbuffered(1) [OF u])
    have a3: "pageBufferStart (addPage E given d) = pageBufferStart d + length (pageBuffer d)"
      by (rule addPage_unbuffered(2) [OF u])
    have a4: "os \<noteq> [] \<longrightarrow>
        pageBuffer (fold (addPage E) os d) = [the (page (fold (addPage E) os d))]"
      using fold_addPage_unbuffered [OF u, of os E] by simp
    have a5: "length (pageBuffer d) \<le> 1 \<longrightarrow> length (pageBuffer (fold (addPage E) os d)) \<le> 1"
      using fold_addPage_le1 [OF u, of E os] by simp
    have a6: "\<forall>p \<in> set (pageBuffer d). serialised p (written d (addPage E given d))"
      using written_addPage [OF u, of _ E given] by simp
    have a7: "waiting (addPage E given d)
        = waiting d + (\<Sum>p\<leftarrow>pageBuffer d. delta (endPageMarkings E p) - 2) + 2"
      by (rule waiting_addPage_unbuffered [OF u])
    have a8: "pageBuffer d = [q] \<and> allocated q d \<longrightarrow> recorded q (addPage E given d)"
      using recorded_addPage [OF u, of q E given] by (simp add: allocated_def)
    have a9: "unrecorded (the (page (addPage E given d))) (addPage E given d)"
      using unrecorded_addPage [of E given d] by (simp add: addPage_fields)
    show ?thesis
      by (intro conjI) (fact a1 a2 a3 a4 a5 a6 a7 a8 a9)+
  qed
  have B: "pageBuffer (flushPages E d) = []"
    by simp
  have C: "\<forall>p \<in> set (pageBuffer d). serialised p (written d (flushPages E d))"
    using written_flushPages [of _ d E] by simp
  have D: "length (pageBuffer (PDFDocument E opts)) \<le> 1
        \<and> length (pageBuffer (fold (addPage E) os (PDFDocument E opts))) \<le> 1
        \<and> pageBuffer (document E opts os)
            = (if history E opts os = [] then [] else [last (history E opts os)])
        \<and> (\<forall>p \<in> set (butlast (history E opts os)). serialised p (out (document E opts os)))
        \<and> ((\<forall>p. \<forall>a \<in> set (endPageMarkings E p). with_offset a) \<longrightarrow>
             (\<forall>p \<in> set (butlast (history E opts os)). recorded p (document E opts os)))
        \<and> (history E opts os \<noteq> [] \<longrightarrow>
             unrecorded (last (history E opts os)) (document E opts os))"
    if u: "\<not> truthy (bufferPages opts)"
  proof -
    have d1: "length (pageBuffer (PDFDocument E opts)) \<le> 1"
      by (simp add: ctor_fields(6))
    have d2: "length (pageBuffer (fold (addPage E) os (PDFDocument E opts))) \<le> 1"
      by (rule fold_addPage_le1) (simp_all add: ctor_fields u)
    note i = one_resident_document [OF u, of E os, unfolded one_resident_def]
    have d3: "pageBuffer (document E opts os)
        = (if history E opts os = [] then [] else [last (history E opts os)])"
      by (rule i [THEN conjunct1])
    have d4: "\<forall>p \<in> set (butlast (history E opts os)). serialised p (out (document E opts os))"
      by (rule i [THEN conjunct2, THEN conjunct1])
    have d5: "(\<forall>p. \<forall>a \<in> set (endPageMarkings E p). with_offset a) \<longrightarrow>
        (\<forall>p \<in> set (butlast (history E opts os)). recorded p (document E opts os))"
      by (rule i [THEN conjunct2, THEN conjunct2, THEN conjunct2, THEN conjunct1])
    have d6: "history E opts os \<noteq> [] \<longrightarrow>
        unrecorded (last (history E opts os)) (document E opts os)"
      by (rule i [THEN conjunct2, THEN conjunct2, THEN conjunct2, THEN conjunct2])
    show ?thesis
      by (intro conjI) (fact d1 d2 d3 d4 d5 d6)+
  qed
  show ?thesis
    using A B C D by (intro conjI impI) blast+
qed

theorem unbuffered_at_most_one_page_witness:
  "\<not> truthy (bufferPages (options (PDFDocument env0 opts0)))
   \<and> length (pageBuffer (fold (addPage env0) [None, None] (PDFDocument env0 opts0))) = 1
   \<and> pageBufferStart (addPage env0 None (PDFDocument env0 opts0)) = 1
   \<and> length (pageBuffer (addPage env0 None (PDFDocument env0 opts0))) = 1
   \<and> obj_header 5 \<in> set (written (PDFDocument env0 opts0)
        (addPage env0 None (PDFDocument env0 opts0)))
   \<and> obj_header 4 \<in> set (written (PDFDocument env0 opts0)
        (addPage env0 None (PDFDocument env0 opts0)))
   \<and> waiting (PDFDocument env0 opts0) = 5
   \<and> waiting (addPage env0 None (PDFDocument env0 opts0)) = 5
   \<and> is_offset (slot_of (addPage env0 None (PDFDocument env0 opts0)) 5)
   \<and> is_offset (slot_of (addPage env0 None (PDFDocument env0 opts0)) 4)
   \<and> pageBuffer (document env0 opts0 [None, None])
       = [\<lparr>dictionary = 9, content = 8, width = 612, height = 792\<rparr>]
   \<and> obj_header 5 \<in> set (out (document env0 opts0 [None, None]))
   \<and> obj_header 4 \<in> set (out (document env0 opts0 [None, None]))
   \<and> obj_header 7 \<in> set (out (document env0 opts0 [None, None]))
   \<and> obj_header 6 \<in> set (out (document env0 opts0 [None, None]))
   \<and> is_offset (slot_of (document env0 opts0 [None, None]) 5)
   \<and> is_offset (slot_of (document env0 opts0 [None, None]) 4)
   \<and> is_offset (slot_of (document env0 opts0 [None, None]) 7)
   \<and> is_offset (slot_of (document env0 opts0 [None, None]) 6)
   \<and> slot_of (document env0 opts0 [None, None]) 9 = Pending
   \<and> slot_of (document env0 opts0 [None, None]) 8 = Pending"
proof -
  let ?D = "PDFDocument env0 opts0"
  let ?p = "\<lparr>dictionary = 5, content = 4, width = 612, height = 792\<rparr>"
  have n: "\<not> truthy (bufferPages (options ?D))"
    by (simp add: ctor_fields)
  have m: "\<not> truthy (bufferPages opts0)"
    by simp
  have h: "\<forall>p. \<forall>a \<in> set (endPageMarkings env0 p). with_offset a"
    by simp
  note T = unbuffered_at_most_one_page [of ?D env0 None "[None, None]" ?p opts0,
      THEN conjunct1, rule_format, OF n]
  note U = unbuffered_at_most_one_page [of ?D env0 None "[None, None]" ?p opts0,
      THEN conjunct2, THEN conjunct2, THEN conjunct2, rule_format, OF m]
  have a: "pageBuffer (addPage env0 None ?D) = [the (page (addPage env0 None ?D))]"
    by (rule T [THEN conjunct2, THEN conjunct1])
  have s: "pageBufferStart (addPage env0 None ?D) = pageBufferStart ?D + length (pageBuffer ?D)"
    by (rule T [THEN conjunct2, THEN conjunct2, THEN conjunct1])
  have f: "pageBuffer (fold (addPage env0) [None, None] ?D)
      = [the (page (fold (addPage env0) [None, None] ?D))]"
    using T [THEN conjunct2, THEN conjunct2, THEN conjunct2, THEN conjunct1] by blast
  have w: "\<forall>p \<in> set (pageBuffer ?D). serialised p (written ?D (addPage env0 None ?D))"
    by (rule T [THEN conjunct2, THEN conjunct2, THEN conjunct2, THEN conjunct2, THEN conjunct2,
          THEN conjunct1])
  have c: "waiting (addPage env0 None ?D)
      = waiting ?D + (\<Sum>p\<leftarrow>pageBuffer ?D. delta (endPageMarkings env0 p) - 2) + 2"
    by (rule T [THEN conjunct2, THEN conjunct2, THEN conjunct2, THEN conjunct2, THEN conjunct2,
          THEN conjunct2, THEN conjunct1])
  have r: "pageBuffer ?D = [?p] \<and> allocated ?p ?D \<longrightarrow> recorded ?p (addPage env0 None ?D)"
    by (rule T [THEN conjunct2, THEN conjunct2, THEN conjunct2, THEN conjunct2, THEN conjunct2,
          THEN conjunct2, THEN conjunct2, THEN conjunct1])
  have u3: "pageBuffer (document env0 opts0 [None, None])
      = (if history env0 opts0 [None, None] = [] then []
         else [last (history env0 opts0 [None, None])])"
    by (rule U [THEN conjunct2, THEN conjunct2, THEN conjunct1])
  have u4: "\<forall>p \<in> set (butlast (history env0 opts0 [None, None])).
      serialised p (out (document env0 opts0 [None, None]))"
    by (rule U [THEN conjunct2, THEN conjunct2, THEN conjunct2, THEN conjunct1])
  have u5: "\<forall>p \<in> set (butlast (history env0 opts0 [None, None])).
      recorded p (document env0 opts0 [None, None])"
    using U [THEN conjunct2, THEN conjunct2, THEN conjunct2, THEN conjunct2, THEN conjunct1] h
    by blast
  have u6: "unrecorded (last (history env0 opts0 [None, None]))
      (document env0 opts0 [None, None])"
    using U [THEN conjunct2, THEN conjunct2, THEN conjunct2, THEN conjunct2, THEN conjunct2]
    by (simp add: history0)
  have g1: "length (pageBuffer (fold (addPage env0) [None, None] ?D)) = 1"
    by (subst f) simp
  have g2: "length (pageBuffer (addPage env0 None ?D)) = 1"
    by (subst a) simp
  have g3: "pageBufferStart (addPage env0 None ?D) = 1"
    using s by (simp add: ctor_fields)
  have g4: "obj_header 5 \<in> set (written ?D (addPage env0 None ?D))"
    "obj_header 4 \<in> set (written ?D (addPage env0 None ?D))"
    using w by (simp_all add: ctor0_buffer(1) serialised_def)
  have g5: "waiting (addPage env0 None ?D) = 5"
    using c by (simp add: ctor0_buffer(1) ctor0_waiting)
  have g6: "is_offset (slot_of (addPage env0 None ?D) 5)"
    "is_offset (slot_of (addPage env0 None ?D) 4)"
    using r by (simp_all add: ctor0_buffer allocated_def recorded_def)
  have g7: "pageBuffer (document env0 opts0 [None, None])
      = [\<lparr>dictionary = 9, content = 8, width = 612, height = 792\<rparr>]"
    using u3 by (simp add: history0)
  have g8: "obj_header 5 \<in> set (out (document env0 opts0 [None, None]))"
    "obj_header 4 \<in> set (out (document env0 opts0 [None, None]))"
    "obj_header 7 \<in> set (out (document env0 opts0 [None, None]))"
    "obj_header 6 \<in> set (out (document env0 opts0 [None, None]))"
    using u4 by (simp_all add: history0 serialised_def)
  have g9: "is_offset (slot_of (document env0 opts0 [None, None]) 5)"
    "is_offset (slot_of (document env0 opts0 [None, None]) 4)"
    "is_offset (slot_of (document env0 opts0 [None, None]) 7)"
    "is_offset (slot_of (document env0 opts0 [None, None]) 6)"
    using u5 by (simp_all add: history0 recorded_def)
  have g10: "slot_of (document env0 opts0 [None, None]) 9 = Pending"
    "slot_of (document env0 opts0 [None, None]) 8 = Pending"
    using u6 by (simp_all add: history0 unrecorded_def)
  show ?thesis
    by (intro conjI) (fact n g1 g2 g3 g4 g5 g6 g7 g8 g9 g10 ctor0_waiting)+
qed

text \<open>
  C6, as amended. For every named destination of type \<^verbatim>\<open>XYZ\<close> added with a Y coordinate
  that is a number, the stored Y coordinate is the height of the current page minus the
  supplied Y; in particular Y = 100 on a page of height 792 is stored as 692. A Y that is
  \<^verbatim>\<open>null\<close>, the coordinates of a destination of any other type, and the default
  destination of a call without arguments are stored as they are. Without a current page
  the call throws and stores nothing.
\<close>

theorem destination_y_flipped_for_xyz:
  "(page d = None \<longrightarrow> addNamedDestination name args d = (Inl TypeError, d))
   \<and> (page d = Some p \<longrightarrow>
        fst (addNamedDestination name args d) = Inr ()
        \<and> Dests (snd (addNamedDestination name (Some (''XYZ'', x # CNum y # zs)) d)) name
            = Some (dictionary p, ''XYZ'', x # CNum (height p - y) # zs)
        \<and> Dests (snd (addNamedDestination name (Some (''XYZ'', x # CNull # zs)) d)) name
            = Some (dictionary p, ''XYZ'', x # CNull # zs)
        \<and> Dests (snd (addNamedDestination name None d)) name
            = Some (dictionary p, ''XYZ'', [CNull, CNull, CNull])
        \<and> (ty \<noteq> ''XYZ'' \<longrightarrow>
             Dests (snd (addNamedDestination name (Some (ty, cs)) d)) name
               = Some (dictionary p, ty, cs))
        \<and> (height p = 792 \<longrightarrow>
             Dests (snd (addNamedDestination name (Some (''XYZ'', x # CNum 100 # zs)) d)) name
               = Some (dictionary p, ''XYZ'', x # CNum 692 # zs)))"
  by (simp add: dest_xyz_num dest_xyz_null dest_none dest_other dest_no_page dest_result)

theorem destination_y_flipped_for_xyz_witness:
  "height (the (page (PDFDocument env0 opts0))) = 792
   \<and> Dests (snd (addNamedDestination ''here'' (Some (''XYZ'', [CNull, CNum 100, CNull]))
        (PDFDocument env0 opts0))) ''here''
       = Some (dictionary (the (page (PDFDocument env0 opts0))), ''XYZ'',
           [CNull, CNum 692, CNull])
   \<and> Dests (snd (addNamedDestination ''here'' (Some (''FitV'', [CNum 100]))
        (PDFDocument env0 opts0))) ''here''
       = Some (dictionary (the (page (PDFDocument env0 opts0))), ''FitV'', [CNum 100])"
proof -
  obtain p where p: "page (PDFDocument env0 opts0) = Some p" "height p = 792"
    using ctor_page [of opts0 env0] by auto
  have f: "''FitV'' \<noteq> ''XYZ''" by simp
  note T = destination_y_flipped_for_xyz [of "PDFDocument env0 opts0" "''here''" None p CNull 100
      "[CNull]" "''FitV''" "[CNum 100]", THEN conjunct2, rule_format, OF p(1)]
  have a: "Dests (snd (addNamedDestination ''here'' (Some (''XYZ'', [CNull, CNum 100, CNull]))
          (PDFDocument env0 opts0))) ''here''
         = Some (dictionary p, ''XYZ'', [CNull, CNum 692, CNull])"
    using T [THEN conjunct2, THEN conjunct2, THEN conjunct2, THEN conjunct2, THEN conjunct2] p(2)
    by blast
  have b: "Dests (snd (addNamedDestination ''here'' (Some (''FitV'', [CNum 100]))
          (PDFDocument env0 opts0))) ''here''
         = Some (dictionary p, ''FitV'', [CNum 100])"
    using T [THEN conjunct2, THEN conjunct2, THEN conjunct2, THEN conjunct2, THEN conjunct1] f
    by blast
  show ?thesis
    using p a b by simp
qed

text \<open>
  C6 as stated fails: a destination of type \<^verbatim>\<open>FitH\<close> added with the top coordinate 100 on
  a page of height 792 is stored with the coordinate 100, not 692.
\<close>

theorem destination_fith_counterexample:
  "height (the (page (PDFDocument env0 opts0))) = 792
   \<and> Dests (snd (addNamedDestination ''top'' (Some (''FitH'', [CNum 100]))
        (PDFDocument env0 opts0))) ''top''
       = Some (dictionary (the (page (PDFDocument env0 opts0))), ''FitH'', [CNum 100])
   \<and> Dests (snd (addNamedDestination ''top'' (Some (''FitH'', [CNum 100]))
        (PDFDocument env0 opts0))) ''top''
       \<noteq> Some (dictionary (the (page (PDFDocument env0 opts0))), ''FitH'', [CNum (792 - 100)])"
proof -
  obtain p where p: "page (PDFDocument env0 opts0) = Some p" "height p = 792"
    using ctor_page [of opts0 env0] by auto
  have "Dests (snd (addNamedDestination ''top'' (Some (''FitH'', [CNum 100]))
          (PDFDocument env0 opts0))) ''top''
         = Some (dictionary p, ''FitH'', [CNum 100])"
    by (simp add: dest_other [OF p(1)])
  then show ?thesis
    using p by simp
qed

text \<open>
  C7. Every call of \<^verbatim>\<open>_write\<close> appends its data exactly once, in call order, and returns
  the cumulative byte offset of the sink after the write: the offset before plus the
  length of the chunk pushed, which for a string is the string with a newline appended.
\<close>

theorem write_appends_and_returns_offset:
  "fst (doc_write c d) = offset d + length (to_buffer c)
   \<and> snd (doc_write c d)
       = d\<lparr>out := out d @ [Bytes (to_buffer c)], offset := offset d + length (to_buffer c)\<rparr>
   \<and> to_buffer (Text s) = s @ [CHR 0x0A]
   \<and> to_buffer (Buffer b) = b
   \<and> (offset d = sink_bytes (out d)
        \<longrightarrow> fst (doc_write c d) = sink_bytes (out (snd (doc_write c d))))
   \<and> out (snd (writes cs d)) = out d @ map (\<lambda>c. Bytes (to_buffer c)) cs
   \<and> length (fst (writes cs d)) = length cs
   \<and> (\<forall>k < length cs. fst (writes cs d) ! k
          = offset d + sum_list (map (\<lambda>c. length (to_buffer c)) (take (Suc k) cs)))"
  by (simp add: writes_out writes_results doc_write_def Let_def to_buffer_def del: upt_Suc)

theorem write_appends_and_returns_offset_witness:
  "fst (doc_write (Text ''xref'') (fresh opts0)) = 5
   \<and> out (snd (doc_write (Text ''xref'') (fresh opts0))) = [Bytes (''xref'' @ [CHR 0x0A])]
   \<and> offset (fresh opts0) = sink_bytes (out (fresh opts0))
   \<and> sink_bytes (out (snd (doc_write (Text ''xref'') (fresh opts0)))) = 5
   \<and> fst (writes [Text ''ab'', Buffer ''cde''] (fresh opts0)) ! 1 = 6"
  using write_appends_and_returns_offset
    [of "Text ''xref''" "fresh opts0" "''xref''" "''cde''" "[Text ''ab'', Buffer ''cde'']"]
  by (simp add: fresh_def to_buffer_def)

text \<open>
  C8. For every call \<^verbatim>\<open>switchToPage(n)\<close> with \<open>n\<close> outside the buffered window the
  operation throws an error whose message names \<open>n\<close> and the inclusive range from the
  buffer's start index to the start index plus the buffer's length minus one, and the
  document is left as it was. Inside the window no error is thrown.
\<close>

theorem switchToPage_out_of_range:
  "bufferedPageRange d = (pageBufferStart d, length (pageBuffer d))
   \<and> (n < int (pageBufferStart d) \<or> int (pageBufferStart d) + int (length (pageBuffer d)) \<le> n
        \<longrightarrow> switchToPage n d
          = (Inl (Error (''switchToPage('' @ show_int n
                 @ '') out of bounds, current buffer covers pages ''
                 @ show_nat (pageBufferStart d) @ '' to ''
                 @ show_int (int (pageBufferStart d) + int (length (pageBuffer d)) - 1))), d))
   \<and> (int (pageBufferStart d) \<le> n \<and> n < int (pageBufferStart d) + int (length (pageBuffer d))
        \<longrightarrow> fst (switchToPage n d) = Inr (pageBuffer d ! nat (n - int (pageBufferStart d))))"
  using switchToPage_outside [of n d] switchToPage_inside [of d n]
  by (simp add: bufferedPageRange_def)

theorem switchToPage_out_of_range_witness:
  "switchToPage 3 (PDFDocument env0 opts0)
     = (Inl (Error ''switchToPage(3) out of bounds, current buffer covers pages 0 to 0''),
        PDFDocument env0 opts0)"
proof -
  let ?D = "PDFDocument env0 opts0"
  have b: "pageBufferStart ?D = 0" "length (pageBuffer ?D) = 1"
    by (simp_all add: ctor_fields)
  have o: "3 < int (pageBufferStart ?D) \<or> int (pageBufferStart ?D) + int (length (pageBuffer ?D)) \<le> 3"
    by (simp add: b)
  show ?thesis
    using switchToPage_out_of_range [of ?D 3, THEN conjunct2, THEN conjunct1, rule_format, OF o]
    by (simp add: b show_int_small show_nat_small)
qed

text \<open>
  C9. For every value of the option \<^verbatim>\<open>pdfVersion\<close> that is not one of the recognised
  strings the constructor returns a document, and its version is 1.3; the strings
  \<^verbatim>\<open>'1.4'\<close>, \<^verbatim>\<open>'1.5'\<close>, \<^verbatim>\<open>'1.6'\<close>, \<^verbatim>\<open>'1.7'\<close> and \<^verbatim>\<open>'1.7ext3'\<close> select 1.4, 1.5, 1.6,
  1.7 and 1.7. (The constructor of the model is a total function: it has no error
  result.)
\<close>

theorem unknown_version_defaults:
  "version (PDFDocument E opts) = pdf_version (pdfVersion opts)
   \<and> (v \<noteq> Str ''1.4'' \<and> v \<noteq> Str ''1.5'' \<and> v \<noteq> Str ''1.6'' \<and> v \<noteq> Str ''1.7''
        \<and> v \<noteq> Str ''1.7ext3''
        \<longrightarrow> version (PDFDocument E (opts\<lparr>pdfVersion := v\<rparr>)) = 1.3)
   \<and> version (PDFDocument E (opts\<lparr>pdfVersion := Str ''1.4''\<rparr>)) = 1.4
   \<and> version (PDFDocument E (opts\<lparr>pdfVersion := Str ''1.5''\<rparr>)) = 1.5
   \<and> version (PDFDocument E (opts\<lparr>pdfVersion := Str ''1.6''\<rparr>)) = 1.6
   \<and> version (PDFDocument E (opts\<lparr>pdfVersion := Str ''1.7''\<rparr>)) = 1.7
   \<and> version (PDFDocument E (opts\<lparr>pdfVersion := Str ''1.7ext3''\<rparr>)) = 1.7"
  by (simp add: ctor_fields(2) pdf_version_def)

theorem unknown_version_defaults_witness:
  "version (PDFDocument env0 (opts0\<lparr>pdfVersion := Num 1.4\<rparr>)) = 1.3
   \<and> version (PDFDocument env0 (opts0\<lparr>pdfVersion := Str ''2.0''\<rparr>)) = 1.3
   \<and> version (PDFDocument env0 (opts0\<lparr>pdfVersion := Undefined\<rparr>)) = 1.3
   \<and> version (PDFDocument env0 (opts0\<lparr>pdfVersion := Obj\<rparr>)) = 1.3"
  using unknown_version_defaults [of env0 opts0 "Num 1.4"]
    unknown_version_defaults [of env0 opts0 "Str ''2.0''"]
    unknown_version_defaults [of env0 opts0 Undefined]
    unknown_version_defaults [of env0 opts0 Obj]
  by simp

text \<open>
  C10. After every \<^verbatim>\<open>addPage\<close> call the Pages dictionary has \<open>Count\<close> equal to the
  length of \<open>Kids\<close>, and each added page's dictionary occurs exactly once in \<open>Kids\<close>, in
  creation order; \<^verbatim>\<open>addPage\<close> is the only operation that grows either field, and it
  grows both together. The invariant \<open>pages_inv\<close> holds of every constructed document
  and is kept by \<^verbatim>\<open>addPage\<close>, by any sequence of \<^verbatim>\<open>addPage\<close> calls (whose dictionaries
  are appended in call order) and by the other operations, which leave \<open>Kids\<close> and
  \<open>Count\<close> as they are.
\<close>

theorem pages_count_matches_kids:
  "pages_inv (PDFDocument E opts)
   \<and> (pages_inv d \<longrightarrow>
        pages_inv (addPage E given d)
        \<and> pages_inv (fold (addPage E) os d)
        \<and> Kids (fold (addPage E) os d) = Kids d @ map dictionary (added E os d)
        \<and> pages_inv (flushPages E d) \<and> pages_inv (doc_end E d)
        \<and> pages_inv (snd (switchToPage n d))
        \<and> pages_inv (snd (addNamedDestination name args d))
        \<and> pages_inv (exec E a d))
   \<and> Kids (addPage E given d) = Kids d @ [dictionary (the (page (addPage E given d)))]
   \<and> Count (addPage E given d) = Count d + 1
   \<and> Kids (flushPages E d) = Kids d \<and> Count (flushPages E d) = Count d
   \<and> Kids (doc_end E d) = Kids d \<and> Count (doc_end E d) = Count d
   \<and> Kids (snd (switchToPage n d)) = Kids d \<and> Count (snd (switchToPage n d)) = Count d
   \<and> Kids (snd (addNamedDestination name args d)) = Kids d
   \<and> Count (snd (addNamedDestination name args d)) = Count d
   \<and> Kids (exec E a d) = Kids d \<and> Count (exec E a d) = Count d"
proof -
  have i: "pages_inv (addPage E given d)" "pages_inv (fold (addPage E) os d)"
    "Kids (fold (addPage E) os d) = Kids d @ map dictionary (added E os d)"
    "pages_inv (flushPages E d)" "pages_inv (doc_end E d)"
    "pages_inv (snd (switchToPage n d))"
    "pages_inv (snd (addNamedDestination name args d))"
    "pages_inv (exec E a d)"
    if p: "pages_inv d"
  proof -
    show "pages_inv (addPage E given d)"
      by (rule pages_inv_addPage [OF p])
    show "pages_inv (fold (addPage E) os d)"
      "Kids (fold (addPage E) os d) = Kids d @ map dictionary (added E os d)"
      using fold_addPage_kids [OF p, of E os] by simp_all
    show "pages_inv (flushPages E d)"
      by (rule pages_inv_mono [OF p]) (simp_all add: length_offsets_flushPages)
    show "pages_inv (doc_end E d)"
      by (rule pages_inv_mono [OF p]) (simp_all add: doc_end_pages)
    show "pages_inv (snd (switchToPage n d))"
      by (rule pages_inv_mono [OF p]) simp_all
    show "pages_inv (snd (addNamedDestination name args d))"
      by (rule pages_inv_mono [OF p]) (simp_all add: addNamedDestination_pages)
    show "pages_inv (exec E a d)"
      by (rule pages_inv_mono [OF p]) (simp_all add: length_offsets_exec)
  qed
  show ?thesis
    using i pages_inv_ctor [of E opts]
    by (simp add: addPage_fields doc_end_pages addNamedDestination_pages)
qed

theorem pages_count_matches_kids_witness:
  "pages_inv (PDFDocument env0 opts0)
   \<and> pages_inv (addPage env0 None (PDFDocument env0 opts0))
   \<and> Count (PDFDocument env0 opts0) = 1
   \<and> Count (addPage env0 None (PDFDocument env0 opts0)) = 2
   \<and> length (Kids (addPage env0 None (PDFDocument env0 opts0))) = 2"
proof -
  let ?D = "PDFDocument env0 opts0"
  note T = pages_count_matches_kids [of env0 opts0 ?D None "[]" 0 "''a''" None CallRef]
  have i: "pages_inv ?D"
    by (rule T [THEN conjunct1])
  have a: "pages_inv (addPage env0 None ?D)"
    using T [THEN conjunct2, THEN conjunct1] i by blast
  have c: "Count (addPage env0 None ?D) = Count ?D + 1"
    by (rule T [THEN conjunct2, THEN conjunct2, THEN conjunct2, THEN conjunct1])
  have k: "Count ?D = 1"
    by (simp add: ctor_fields(8,7,6))
  have "Count (addPage env0 None ?D) = length (Kids (addPage env0 None ?D))"
    using a by (simp add: pages_inv_def)
  then show ?thesis
    using i a c k by simp
qed

end
